theory Spec2Isabelle
  imports Main
begin

unbundle bit_operations_syntax

section \<open>The LS-8 emulator of cpu\_final.py\<close>

text \<open>
  The class \<open>CPU\<close> keeps the whole machine in the fields of one object. The model
  passes that object as a record; every method takes the record and returns either
  the error it raises or the updated record. Python integers are unbounded, so the
  contents of registers, memory, \<open>pc\<close> and \<open>fl\<close> are values of type \<open>int\<close> wrapped in
  \<open>PInt\<close>; nothing in the source reduces them modulo 256.

  Outside the model: \<open>load\<close>, which reads the program file; the wall clock, whose
  reading is an input of each cycle; failures of the console that \<open>print\<close> writes to;
  and the exhaustion of memory by a very large shift count.
\<close>

subsection \<open>Values and errors\<close>

text \<open>
  \<open>PFloat x y\<close> is the float that the true division \<open>x / y\<close> of two integers returns
  (the only place where the source leaves the integers), \<open>PNone\<close> is the \<open>None\<close>
  that \<open>op_inc\<close> and \<open>op_dec\<close> pass as second register number.
\<close>

datatype pyval = PInt int | PFloat int int | PNone

text \<open>
  The first seven errors are the exceptions the source can raise. \<open>Float_arithmetic\<close> is
  not an exception: it marks the places where Python would go on computing with a float
  operand (addition, comparison, ...). The value of such a computation depends on
  IEEE rounding, which is not modelled, so the model stops there.
\<close>

datatype error =
    IndexError
  | TypeError
  | ValueError
  | ZeroDivisionError
  | OverflowError
  | Unsupported_ALU_operation
  | Invalid_Instruction int int
  | Float_arithmetic

fun bind :: "error + 'a \<Rightarrow> ('a \<Rightarrow> error + 'b) \<Rightarrow> error + 'b" where
  "bind (Inl e) f = Inl e"
| "bind (Inr x) f = f x"

fun is_int :: "pyval \<Rightarrow> bool" where
  "is_int (PInt i) = True"
| "is_int v = False"

text \<open>
  Subscripting a list of length \<open>n\<close>: a negative index counts from the end, an index
  outside \<open>-n .. n-1\<close> raises IndexError, a float or \<open>None\<close> raises TypeError.
\<close>

fun py_index :: "nat \<Rightarrow> pyval \<Rightarrow> error + nat" where
  "py_index n (PInt i) =
     (if 0 \<le> i \<and> i < int n then Inr (nat i)
      else if - int n \<le> i \<and> i < 0 then Inr (nat (i + int n))
      else Inl IndexError)"
| "py_index n v = Inl TypeError"

text \<open>The operators \<open>+\<close>, \<open>-\<close>, \<open>*\<close> on two values.\<close>

fun py_add :: "pyval \<Rightarrow> pyval \<Rightarrow> error + pyval" where
  "py_add (PInt x) (PInt y) = Inr (PInt (x + y))"
| "py_add PNone v = Inl TypeError"
| "py_add v PNone = Inl TypeError"
| "py_add v w = Inl Float_arithmetic"

fun py_sub :: "pyval \<Rightarrow> pyval \<Rightarrow> error + pyval" where
  "py_sub (PInt x) (PInt y) = Inr (PInt (x - y))"
| "py_sub PNone v = Inl TypeError"
| "py_sub v PNone = Inl TypeError"
| "py_sub v w = Inl Float_arithmetic"

fun py_mul :: "pyval \<Rightarrow> pyval \<Rightarrow> error + pyval" where
  "py_mul (PInt x) (PInt y) = Inr (PInt (x * y))"
| "py_mul PNone v = Inl TypeError"
| "py_mul v PNone = Inl TypeError"
| "py_mul v w = Inl Float_arithmetic"

text \<open>
  True division \<open>/\<close>. On integers it raises ZeroDivisionError for a zero divisor and
  OverflowError when the correctly rounded quotient is not a finite double, that is
  from \<open>2^1024 - 2^970\<close> on; otherwise the result is a float.
\<close>

fun py_truediv :: "pyval \<Rightarrow> pyval \<Rightarrow> error + pyval" where
  "py_truediv (PInt x) (PInt y) =
     (if y = 0 then Inl ZeroDivisionError
      else if (2 ^ 1024 - 2 ^ 970) * \<bar>y\<bar> \<le> \<bar>x\<bar> then Inl OverflowError
      else Inr (PFloat x y))"
| "py_truediv PNone v = Inl TypeError"
| "py_truediv v PNone = Inl TypeError"
| "py_truediv v w = Inl Float_arithmetic"

text \<open>The bitwise operators are defined on integers only.\<close>

fun py_and :: "pyval \<Rightarrow> pyval \<Rightarrow> error + int" where
  "py_and (PInt x) (PInt y) = Inr (x AND y)"
| "py_and v w = Inl TypeError"

fun py_or :: "pyval \<Rightarrow> pyval \<Rightarrow> error + int" where
  "py_or (PInt x) (PInt y) = Inr (x OR y)"
| "py_or v w = Inl TypeError"

fun py_xor :: "pyval \<Rightarrow> pyval \<Rightarrow> error + int" where
  "py_xor (PInt x) (PInt y) = Inr (x XOR y)"
| "py_xor v w = Inl TypeError"

text \<open>\<open><<\<close> raises ValueError for a negative shift count.\<close>

fun py_lshift :: "pyval \<Rightarrow> pyval \<Rightarrow> error + int" where
  "py_lshift (PInt x) (PInt y) =
     (if y < 0 then Inl ValueError else Inr (push_bit (nat y) x))"
| "py_lshift v w = Inl TypeError"

text \<open>\<open>>>\<close> by a constant, non-negative count.\<close>

fun py_rshift :: "pyval \<Rightarrow> nat \<Rightarrow> error + int" where
  "py_rshift (PInt x) n = Inr (drop_bit n x)"
| "py_rshift v n = Inl TypeError"

fun py_lt :: "pyval \<Rightarrow> pyval \<Rightarrow> error + bool" where
  "py_lt (PInt x) (PInt y) = Inr (x < y)"
| "py_lt PNone v = Inl TypeError"
| "py_lt v PNone = Inl TypeError"
| "py_lt v w = Inl Float_arithmetic"

fun py_gt :: "pyval \<Rightarrow> pyval \<Rightarrow> error + bool" where
  "py_gt (PInt x) (PInt y) = Inr (x > y)"
| "py_gt PNone v = Inl TypeError"
| "py_gt v PNone = Inl TypeError"
| "py_gt v w = Inl Float_arithmetic"

subsection \<open>Constants\<close>

definition ADD :: int where "ADD = 160"
definition AND_op :: int where "AND_op = 168"
definition CALL :: int where "CALL = 80"
definition CMP :: int where "CMP = 167"
definition DEC :: int where "DEC = 102"
definition DIV :: int where "DIV = 163"
definition HLT :: int where "HLT = 1"
definition INC :: int where "INC = 101"
definition IRET :: int where "IRET = 19"
definition JEQ :: int where "JEQ = 85"
definition JLE :: int where "JLE = 89"
definition JLT :: int where "JLT = 88"
definition JMP :: int where "JMP = 84"
definition JNE :: int where "JNE = 86"
definition LD :: int where "LD = 131"
definition LDI :: int where "LDI = 130"
definition MUL :: int where "MUL = 162"
definition OR_op :: int where "OR_op = 170"
definition POP :: int where "POP = 70"
definition PRA :: int where "PRA = 72"
definition PRN :: int where "PRN = 71"
definition PUSH :: int where "PUSH = 69"
definition RET :: int where "RET = 17"
definition SHL :: int where "SHL = 172"
definition ST :: int where "ST = 132"
definition SUB :: int where "SUB = 161"
definition XOR_op :: int where "XOR_op = 171"

lemmas opcode_defs =
  ADD_def AND_op_def CALL_def CMP_def DEC_def DIV_def HLT_def INC_def IRET_def
  JEQ_def JLE_def JLT_def JMP_def JNE_def LD_def LDI_def MUL_def OR_op_def POP_def
  PRA_def PRN_def PUSH_def RET_def SHL_def ST_def SUB_def XOR_op_def

text \<open>Reserved register numbers, the flags set by CMP, the timer bit of IS.\<close>

definition IM :: int where "IM = 5"
definition IS :: int where "IS = 6"
definition SP :: int where "SP = 7"

definition FL_LT :: int where "FL_LT = 4"
definition FL_GT :: int where "FL_GT = 2"
definition FL_EQ :: int where "FL_EQ = 1"

definition IS_TIMER :: int where "IS_TIMER = 1"

lemmas const_defs = IM_def IS_def SP_def FL_LT_def FL_GT_def FL_EQ_def IS_TIMER_def

subsection \<open>The machine state\<close>

text \<open>
  The fields of \<open>CPU\<close>. \<open>out\<close> is what PRN and PRA have written to standard output.
  Left out: \<open>branch_table\<close> (a constant, below), \<open>ir_has_set_pc\<close> (never read) and
  \<open>last_interrupt\<close> (the wall clock: whether the timer fires is an input of the cycle).
\<close>

datatype stdout_item = Printed pyval | Printed_char int

record cpu =
  pc :: pyval
  fl :: pyval
  ie :: int
  halted :: bool
  inst_set_pc :: bool
  ram :: "pyval list"
  reg :: "pyval list"
  out :: "stdout_item list"

definition init :: cpu where
  "init = \<lparr>pc = PInt 0, fl = PInt 0, ie = 1, halted = False, inst_set_pc = False,
           ram = replicate 256 (PInt 0),
           reg = (replicate 8 (PInt 0))[7 := PInt 244],
           out = []\<rparr>"

definition reg_get :: "cpu \<Rightarrow> pyval \<Rightarrow> error + pyval" where
  "reg_get s k = bind (py_index (length (reg s)) k) (\<lambda>i. Inr (reg s ! i))"

definition reg_set :: "cpu \<Rightarrow> pyval \<Rightarrow> pyval \<Rightarrow> error + cpu" where
  "reg_set s k v =
     bind (py_index (length (reg s)) k) (\<lambda>i. Inr (s\<lparr>reg := (reg s)[i := v]\<rparr>))"

definition ram_write :: "cpu \<Rightarrow> pyval \<Rightarrow> pyval \<Rightarrow> error + cpu" where
  "ram_write s mdr mar =
     bind (py_index (length (ram s)) mar) (\<lambda>i. Inr (s\<lparr>ram := (ram s)[i := mdr]\<rparr>))"

definition ram_read :: "cpu \<Rightarrow> pyval \<Rightarrow> error + pyval" where
  "ram_read s mar = bind (py_index (length (ram s)) mar) (\<lambda>i. Inr (ram s ! i))"

subsection \<open>The stack\<close>

definition push_value :: "pyval \<Rightarrow> cpu \<Rightarrow> error + cpu" where
  "push_value v s =
     bind (reg_get s (PInt SP)) (\<lambda>x.
     bind (py_sub x (PInt 1)) (\<lambda>x'.
     bind (reg_set s (PInt SP) x') (\<lambda>s1.
     bind (reg_get s1 (PInt 7)) (\<lambda>a.
     ram_write s1 v a))))"

definition pop_value :: "cpu \<Rightarrow> error + pyval \<times> cpu" where
  "pop_value s =
     bind (reg_get s (PInt 7)) (\<lambda>a.
     bind (ram_read s a) (\<lambda>v.
     bind (reg_get s (PInt SP)) (\<lambda>x.
     bind (py_add x (PInt 1)) (\<lambda>x'.
     bind (reg_set s (PInt SP) x') (\<lambda>s1.
     Inr (v, s1))))))"

subsection \<open>Interrupts\<close>

text \<open>
  \<open>check_timer_interrupt\<close> compares two readings of the wall clock. \<open>fire\<close> is the
  outcome of that comparison (\<open>difference.seconds >= 1\<close>).
\<close>

definition check_timer_interrupt :: "bool \<Rightarrow> cpu \<Rightarrow> error + cpu" where
  "check_timer_interrupt fire s =
     (if fire then
        bind (reg_get s (PInt IS)) (\<lambda>x.
        bind (py_or x (PInt IS_TIMER)) (\<lambda>x'.
        reg_set s (PInt IS) (PInt x')))
      else Inr s)"

text \<open>The inner loop \<open>for regBit in range(7): self.push_value(self.reg[regBit])\<close>.\<close>

fun push_regs :: "nat list \<Rightarrow> cpu \<Rightarrow> error + cpu" where
  "push_regs [] s = Inr s"
| "push_regs (r # rs) s =
     bind (reg_get s (PInt (int r))) (\<lambda>v.
     bind (push_value v s) (push_regs rs))"

text \<open>The body of \<open>if masked_interrupts & (1 << i)\<close>, up to the \<open>break\<close>.\<close>

definition service :: "nat \<Rightarrow> cpu \<Rightarrow> error + cpu" where
  "service i s =
     (let s0 = s\<lparr>ie := 0\<rparr> in
      bind (reg_get s0 (PInt IS)) (\<lambda>x.
      bind (py_and x (PInt (NOT (push_bit i 1)))) (\<lambda>x'.
      bind (reg_set s0 (PInt IS) (PInt x')) (\<lambda>s1.
      bind (push_value (pc s1) s1) (\<lambda>s2.
      bind (push_value (fl s2) s2) (\<lambda>s3.
      bind (push_regs [0..<7] s3) (\<lambda>s4.
      bind (ram_read s4 (PInt (248 + int i))) (\<lambda>p.
      Inr (s4\<lparr>pc := p\<rparr>)))))))))"

text \<open>The loop \<open>for i in range(8)\<close>; it ends at the first line that is serviced.\<close>

fun scan :: "nat list \<Rightarrow> int \<Rightarrow> cpu \<Rightarrow> error + cpu" where
  "scan [] masked s = Inr s"
| "scan (i # rest) masked s =
     (if masked AND push_bit i 1 \<noteq> 0 then service i s else scan rest masked s)"

definition handle_interrupts :: "cpu \<Rightarrow> error + cpu" where
  "handle_interrupts s =
     (if ie s = 0 then Inr s
      else
        bind (reg_get s (PInt IM)) (\<lambda>m.
        bind (reg_get s (PInt IS)) (\<lambda>x.
        bind (py_and m x) (\<lambda>masked_interrupts.
        scan [0..<8] masked_interrupts s))))"

subsection \<open>The ALU\<close>

text \<open>
  \<open>self.reg[reg_a] OP= self.reg[reg_b]\<close>: both registers are read, the operator is
  applied, the result is stored in \<open>reg_a\<close>. Nothing reduces the result to a byte.
\<close>

definition alu_assign ::
  "(pyval \<Rightarrow> pyval \<Rightarrow> error + pyval) \<Rightarrow> pyval \<Rightarrow> pyval \<Rightarrow> cpu \<Rightarrow> error + cpu" where
  "alu_assign f reg_a reg_b s =
     bind (reg_get s reg_a) (\<lambda>x.
     bind (reg_get s reg_b) (\<lambda>y.
     bind (f x y) (\<lambda>z.
     reg_set s reg_a z)))"

text \<open>\<open>self.reg[reg_a] OP= 1\<close>, for INC and DEC.\<close>

definition alu_assign1 ::
  "(pyval \<Rightarrow> pyval \<Rightarrow> error + pyval) \<Rightarrow> pyval \<Rightarrow> cpu \<Rightarrow> error + cpu" where
  "alu_assign1 f reg_a s =
     bind (reg_get s reg_a) (\<lambda>x.
     bind (f x (PInt 1)) (\<lambda>z.
     reg_set s reg_a z))"

definition as_val :: "(pyval \<Rightarrow> pyval \<Rightarrow> error + int) \<Rightarrow> pyval \<Rightarrow> pyval \<Rightarrow> error + pyval" where
  "as_val f x y = bind (f x y) (\<lambda>z. Inr (PInt z))"

text \<open>
  The CMP branch. The mask is written \<open>0x11111000\<close> in the source, a hexadecimal
  literal: 286330880.
\<close>

definition alu_cmp :: "pyval \<Rightarrow> pyval \<Rightarrow> cpu \<Rightarrow> error + cpu" where
  "alu_cmp reg_a reg_b s =
     bind (py_and (fl s) (PInt 286330880)) (\<lambda>f0.
     bind (reg_get s reg_a) (\<lambda>x.
     bind (reg_get s reg_b) (\<lambda>y.
     bind (py_lt x y) (\<lambda>lt.
       if lt then bind (py_or (PInt f0) (PInt FL_LT)) (\<lambda>f. Inr (s\<lparr>fl := PInt f\<rparr>))
       else
         bind (reg_get s reg_a) (\<lambda>x.
         bind (reg_get s reg_b) (\<lambda>y.
         bind (py_gt x y) (\<lambda>gt.
           if gt then bind (py_or (PInt f0) (PInt FL_GT)) (\<lambda>f. Inr (s\<lparr>fl := PInt f\<rparr>))
           else bind (py_or (PInt f0) (PInt FL_EQ)) (\<lambda>f. Inr (s\<lparr>fl := PInt f\<rparr>)))))))))"

definition alu :: "string \<Rightarrow> pyval \<Rightarrow> pyval \<Rightarrow> cpu \<Rightarrow> error + cpu" where
  "alu op reg_a reg_b s =
     (if op = ''ADD'' then alu_assign py_add reg_a reg_b s
      else if op = ''AND'' then alu_assign (as_val py_and) reg_a reg_b s
      else if op = ''SUB'' then alu_assign py_sub reg_a reg_b s
      else if op = ''MUL'' then alu_assign py_mul reg_a reg_b s
      else if op = ''DIV'' then alu_assign py_truediv reg_a reg_b s
      else if op = ''DEC'' then alu_assign1 py_sub reg_a s
      else if op = ''INC'' then alu_assign1 py_add reg_a s
      else if op = ''CMP'' then alu_cmp reg_a reg_b s
      else if op = ''OR'' then alu_assign (as_val py_or) reg_a reg_b s
      else if op = ''SHL'' then alu_assign (as_val py_lshift) reg_a reg_b s
      else if op = ''XOR'' then alu_assign (as_val py_xor) reg_a reg_b s
      else Inl Unsupported_ALU_operation)"

subsection \<open>The operation handlers\<close>

type_synonym handler = "pyval \<Rightarrow> pyval \<Rightarrow> cpu \<Rightarrow> error + cpu"

definition op_ldi :: handler where
  "op_ldi operand_a operand_b s = reg_set s operand_a operand_b"

definition op_prn :: handler where
  "op_prn operand_a operand_b s =
     bind (reg_get s operand_a) (\<lambda>v. Inr (s\<lparr>out := out s @ [Printed v]\<rparr>))"

text \<open>\<open>chr\<close> accepts the integers from 0 below 0x110000.\<close>

definition op_pra :: handler where
  "op_pra operand_a operand_b s =
     bind (reg_get s operand_a) (\<lambda>v.
       case v of
         PInt c \<Rightarrow>
           if 0 \<le> c \<and> c < 1114112 then Inr (s\<lparr>out := out s @ [Printed_char c]\<rparr>)
           else Inl ValueError
       | PFloat x y \<Rightarrow> Inl TypeError
       | PNone \<Rightarrow> Inl TypeError)"

definition op_add :: handler where
  "op_add operand_a operand_b s = alu ''ADD'' operand_a operand_b s"

definition op_and :: handler where
  "op_and operand_a operand_b s = alu ''AND'' operand_a operand_b s"

definition op_sub :: handler where
  "op_sub operand_a operand_b s = alu ''SUB'' operand_a operand_b s"

definition op_mul :: handler where
  "op_mul operand_a operand_b s = alu ''MUL'' operand_a operand_b s"

definition op_div :: handler where
  "op_div operand_a operand_b s = alu ''DIV'' operand_a operand_b s"

definition op_dec :: handler where
  "op_dec operand_a operand_b s = alu ''DEC'' operand_a PNone s"

definition op_inc :: handler where
  "op_inc operand_a operand_b s = alu ''INC'' operand_a PNone s"

definition op_or :: handler where
  "op_or operand_a operand_b s = alu ''OR'' operand_a operand_b s"

definition op_xor :: handler where
  "op_xor operand_a operand_b s = alu ''XOR'' operand_a operand_b s"

definition op_pop :: handler where
  "op_pop operand_a operand_b s =
     bind (pop_value s) (\<lambda>(v, s1). reg_set s1 operand_a v)"

definition op_push :: handler where
  "op_push operand_a operand_b s =
     bind (reg_get s operand_a) (\<lambda>v. push_value v s)"

definition op_call :: handler where
  "op_call operand_a operand_b s =
     bind (py_add (pc s) (PInt 2)) (\<lambda>r.
     bind (push_value r s) (\<lambda>s1.
     bind (reg_get s1 operand_a) (\<lambda>t.
     Inr (s1\<lparr>pc := t\<rparr>))))"

definition op_ret :: handler where
  "op_ret operand_a operand_b s =
     bind (pop_value s) (\<lambda>(v, s1). Inr (s1\<lparr>pc := v\<rparr>))"

definition op_ld :: handler where
  "op_ld operand_a operand_b s =
     bind (reg_get s operand_b) (\<lambda>a.
     bind (ram_read s a) (\<lambda>v.
     reg_set s operand_a v))"

definition op_shl :: handler where
  "op_shl operand_a operand_b s = alu ''SHL'' operand_a operand_b s"

definition op_st :: handler where
  "op_st operand_a operand_b s =
     bind (reg_get s operand_b) (\<lambda>v.
     bind (reg_get s operand_a) (\<lambda>a.
     ram_write s v a))"

definition op_jmp :: handler where
  "op_jmp operand_a operand_b s =
     bind (reg_get s operand_a) (\<lambda>t. Inr (s\<lparr>pc := t\<rparr>))"

definition op_jeq :: handler where
  "op_jeq operand_a operand_b s =
     bind (py_and (fl s) (PInt FL_EQ)) (\<lambda>e.
       if e \<noteq> 0 then bind (reg_get s operand_a) (\<lambda>t. Inr (s\<lparr>pc := t\<rparr>))
       else Inr (s\<lparr>inst_set_pc := False\<rparr>))"

definition op_jle :: handler where
  "op_jle operand_a operand_b s =
     bind (py_and (fl s) (PInt FL_LT)) (\<lambda>l.
       if l \<noteq> 0 then bind (reg_get s operand_a) (\<lambda>t. Inr (s\<lparr>pc := t\<rparr>))
       else
         bind (py_and (fl s) (PInt FL_EQ)) (\<lambda>e.
           if e \<noteq> 0 then bind (reg_get s operand_a) (\<lambda>t. Inr (s\<lparr>pc := t\<rparr>))
           else Inr (s\<lparr>inst_set_pc := False\<rparr>)))"

definition op_jlt :: handler where
  "op_jlt operand_a operand_b s =
     bind (py_and (fl s) (PInt FL_LT)) (\<lambda>l.
       if l \<noteq> 0 then bind (reg_get s operand_a) (\<lambda>t. Inr (s\<lparr>pc := t\<rparr>))
       else Inr (s\<lparr>inst_set_pc := False\<rparr>))"

definition op_jne :: handler where
  "op_jne operand_a operand_b s =
     bind (py_and (fl s) (PInt FL_EQ)) (\<lambda>e.
       if \<not> e \<noteq> 0 then bind (reg_get s operand_a) (\<lambda>t. Inr (s\<lparr>pc := t\<rparr>))
       else Inr (s\<lparr>inst_set_pc := False\<rparr>))"

definition op_cmp :: handler where
  "op_cmp operand_a operand_b s = alu ''CMP'' operand_a operand_b s"

text \<open>The loop \<open>for i in range(6, -1, -1): self.reg[i] = self.pop_value()\<close>.\<close>

fun pop_regs :: "nat list \<Rightarrow> cpu \<Rightarrow> error + cpu" where
  "pop_regs [] s = Inr s"
| "pop_regs (i # rest) s =
     bind (pop_value s) (\<lambda>(v, s1).
     bind (reg_set s1 (PInt (int i)) v) (pop_regs rest))"

definition op_iret :: handler where
  "op_iret operand_a operand_b s =
     bind (pop_regs [6, 5, 4, 3, 2, 1, 0] s) (\<lambda>s1.
     bind (pop_value s1) (\<lambda>(f, s2).
     bind (pop_value (s2\<lparr>fl := f\<rparr>)) (\<lambda>(p, s3).
     Inr (s3\<lparr>pc := p, ie := 1\<rparr>))))"

definition op_hlt :: handler where
  "op_hlt operand_a operand_b s = Inr (s\<lparr>halted := True\<rparr>)"

text \<open>The dictionary \<open>branch_table\<close>.\<close>

definition branch_table :: "int \<Rightarrow> handler option" where
  "branch_table = map_of
     [(ADD, op_add), (AND_op, op_and), (CALL, op_call), (CMP, op_cmp), (DEC, op_dec),
      (DIV, op_div), (HLT, op_hlt), (INC, op_inc), (IRET, op_iret), (JEQ, op_jeq),
      (JLE, op_jle), (JLT, op_jlt), (JMP, op_jmp), (JNE, op_jne), (LD, op_ld),
      (LDI, op_ldi), (MUL, op_mul), (OR_op, op_or), (POP, op_pop), (PRA, op_pra),
      (PRN, op_prn), (PUSH, op_push), (RET, op_ret), (SHL, op_shl), (ST, op_st),
      (SUB, op_sub), (XOR_op, op_xor)]"

subsection \<open>The execution loop\<close>

text \<open>
  \<open>trace\<close> prints a diagnostic dump. The text is not recorded in \<open>out\<close>, but the
  conversion \<open>%02X\<close> raises TypeError for a float or \<open>None\<close>, and the dump applies it
  to \<open>pc\<close>, \<open>ir\<close>, \<open>fl\<close>, the three bytes at \<open>pc\<close> and every register.
\<close>

definition fmt_X :: "pyval list \<Rightarrow> error + unit" where
  "fmt_X vs = (if list_all is_int vs then Inr () else Inl TypeError)"

fun trace_regs :: "nat list \<Rightarrow> cpu \<Rightarrow> error + unit" where
  "trace_regs [] s = Inr ()"
| "trace_regs (i # rest) s =
     bind (reg_get s (PInt (int i))) (\<lambda>v.
     bind (fmt_X [v]) (\<lambda>u. trace_regs rest s))"

definition trace :: "cpu \<Rightarrow> pyval \<Rightarrow> pyval \<Rightarrow> pyval \<Rightarrow> error + unit" where
  "trace s ir operand_a operand_b =
     bind (ram_read s (pc s)) (\<lambda>m0.
     bind (py_add (pc s) (PInt 1)) (\<lambda>p1.
     bind (ram_read s p1) (\<lambda>m1.
     bind (py_add (pc s) (PInt 2)) (\<lambda>p2.
     bind (ram_read s p2) (\<lambda>m2.
     bind (fmt_X [pc s, ir, fl s, m0, m1, m2]) (\<lambda>u.
     trace_regs [0..<8] s))))))"

text \<open>
  The three reads at the head of the loop body: \<open>ir\<close>, \<open>operand_a\<close>, \<open>operand_b\<close>.
\<close>

definition fetch :: "cpu \<Rightarrow> error + pyval \<times> pyval \<times> pyval" where
  "fetch s =
     bind (ram_read s (pc s)) (\<lambda>ir.
     bind (py_add (pc s) (PInt 1)) (\<lambda>p1.
     bind (ram_read s p1) (\<lambda>operand_a.
     bind (py_add (pc s) (PInt 2)) (\<lambda>p2.
     bind (ram_read s p2) (\<lambda>operand_b.
     Inr (ir, operand_a, operand_b))))))"

text \<open>The last statement of the loop body.\<close>

definition advance :: "int \<Rightarrow> cpu \<Rightarrow> error + cpu" where
  "advance inst_size s =
     (if \<not> inst_set_pc s then
        bind (py_add (pc s) (PInt inst_size)) (\<lambda>p. Inr (s\<lparr>pc := p\<rparr>))
      else Inr s)"

text \<open>
  The loop body after the two interrupt calls: fetch, decode, trace, dispatch, advance.
  When the look-up in \<open>branch_table\<close> is reached, \<open>ir\<close> and \<open>pc\<close> are integers.
\<close>

definition execute :: "cpu \<Rightarrow> error + cpu" where
  "execute s =
     bind (fetch s) (\<lambda>(ir, operand_a, operand_b).
     bind (py_rshift ir 6) (\<lambda>hi.
     bind (py_rshift ir 4) (\<lambda>b4.
       let inst_size = (hi AND 3) + 1;
           s1 = s\<lparr>inst_set_pc := ((b4 AND 1) = 1)\<rparr>
       in
         bind (trace s1 ir operand_a operand_b) (\<lambda>u.
           case (ir, pc s1) of
             (PInt irv, PInt pcv) \<Rightarrow>
               (case branch_table irv of
                  Some h \<Rightarrow> bind (h operand_a operand_b s1) (advance inst_size)
                | None \<Rightarrow> Inl (Invalid_Instruction irv pcv))
           | _ \<Rightarrow> Inl TypeError))))"

definition cycle :: "bool \<Rightarrow> cpu \<Rightarrow> error + cpu" where
  "cycle fire s =
     bind (check_timer_interrupt fire s) (\<lambda>s1.
     bind (handle_interrupts s1) execute)"

text \<open>
  \<open>run\<close>: the loop \<open>while not self.halted\<close>. The list holds the timer observation of
  each cycle; when it is used up before the machine halts or fails, the result is
  \<open>None\<close>.
\<close>

fun run :: "bool list \<Rightarrow> cpu \<Rightarrow> (error + cpu) option" where
  "run [] s = (if halted s then Some (Inr s) else None)"
| "run (fire # rest) s =
     (if halted s then Some (Inr s)
      else (case cycle fire s of
              Inl e \<Rightarrow> Some (Inl e)
            | Inr s1 \<Rightarrow> run rest s1))"

subsection \<open>Memory cells\<close>

text \<open>
  The cell of a 256-byte memory that the address \<open>a\<close> selects, for \<open>-256 \<le> a < 256\<close>:
  what \<open>py_index 256\<close> returns there.
\<close>

definition slot :: "int \<Rightarrow> nat" where
  "slot a = (if 0 \<le> a then nat a else nat (a + 256))"

text \<open>The memory after the values \<open>vs\<close> have been pushed in turn from stack pointer \<open>sp\<close>.\<close>

fun stack_write :: "pyval list \<Rightarrow> int \<Rightarrow> pyval list \<Rightarrow> pyval list" where
  "stack_write m sp [] = m"
| "stack_write m sp (v # vs) = stack_write (m[slot (sp - 1) := v]) (sp - 1) vs"

subsection \<open>Sequences of stack operations\<close>

text \<open>
  The stack claim speaks of \<open>n\<close> pushes followed by \<open>n\<close> pops. These two functions
  iterate \<open>push_value\<close> over a list of values and \<open>pop_value\<close> \<open>n\<close> times, collecting
  what the pops return in the order they return it.
\<close>

fun push_values :: "pyval list \<Rightarrow> cpu \<Rightarrow> error + cpu" where
  "push_values [] s = Inr s"
| "push_values (v # vs) s = bind (push_value v s) (push_values vs)"

fun pop_values :: "nat \<Rightarrow> cpu \<Rightarrow> error + pyval list \<times> cpu" where
  "pop_values 0 s = Inr ([], s)"
| "pop_values (Suc n) s =
     bind (pop_value s) (\<lambda>(v, s1).
     bind (pop_values n s1) (\<lambda>(vs, s2). Inr (v # vs, s2)))"

subsection \<open>Declined jumps\<close>

text \<open>
  The pairs of an opcode and a content \<open>f\<close> of FL for which a conditional jump does not
  jump: the negation of the test of \<open>op_jeq\<close>, \<open>op_jne\<close>, \<open>op_jlt\<close> and \<open>op_jle\<close>.
\<close>

definition declines :: "int \<Rightarrow> int \<Rightarrow> bool" where
  "declines ir f \<longleftrightarrow>
     ir = JEQ \<and> f AND FL_EQ = 0 \<or> ir = JNE \<and> f AND FL_EQ \<noteq> 0 \<or>
     ir = JLT \<and> f AND FL_LT = 0 \<or> ir = JLE \<and> f AND FL_LT = 0 \<and> f AND FL_EQ = 0"

subsection \<open>Example machines\<close>

text \<open>
  Concrete states on which the theorems below are instantiated. \<open>irq_state\<close> has IM = 3,
  IS = 6 and the vector of line 1 set to 77; \<open>irq_entered\<close> is that machine after the
  dispatch of line 1 and \<open>irq_returned\<close> after the following IRET.
\<close>

definition irq_state :: cpu where
  "irq_state = init\<lparr>ram := (ram init)[249 := PInt 77],
                    reg := (reg init)[5 := PInt 3, 6 := PInt 6]\<rparr>"

definition irq_entered :: cpu where
  "irq_entered =
     irq_state\<lparr>pc := PInt 77, ie := 0,
       ram := (ram irq_state)[243 := PInt 0, 242 := PInt 0, 241 := PInt 0, 240 := PInt 0,
                239 := PInt 0, 238 := PInt 0, 237 := PInt 0, 236 := PInt 3, 235 := PInt 4],
       reg := (reg irq_state)[6 := PInt 4, 7 := PInt 235]\<rparr>"

definition irq_returned :: cpu where
  "irq_returned =
     irq_entered\<lparr>pc := PInt 0, fl := PInt 0, ie := 1,
       reg := [PInt 0, PInt 0, PInt 0, PInt 0, PInt 0, PInt 3, PInt 4, PInt 244]\<rparr>"

text \<open>Register 0 holds 255 and register 1 holds 1.\<close>

definition wide_state :: cpu where
  "wide_state = init\<lparr>reg := (reg init)[0 := PInt 255, 1 := PInt 1]\<rparr>"

text \<open>A CALL through register 2 at address 10, before and after.\<close>

definition call_state :: cpu where
  "call_state = init\<lparr>pc := PInt 10, reg := (reg init)[2 := PInt 40]\<rparr>"

definition call_entered :: cpu where
  "call_entered = call_state\<lparr>pc := PInt 40, ram := (ram call_state)[243 := PInt 12],
                    reg := (reg call_state)[7 := PInt 243]\<rparr>"

text \<open>Register 0 holds 42.\<close>

definition stack_state :: cpu where
  "stack_state = init\<lparr>reg := (reg init)[0 := PInt 42]\<rparr>"

text \<open>HLT in the last cell of memory, with PC on it.\<close>

definition top_state :: cpu where
  "top_state = init\<lparr>pc := PInt 255, ram := (ram init)[255 := PInt HLT]\<rparr>"

text \<open>The byte 255, which is no opcode, at PC.\<close>

definition bad_state :: cpu where
  "bad_state = init\<lparr>pc := PInt 3, ram := (ram init)[3 := PInt 255]\<rparr>"

text \<open>The program \<open>JEQ R2; JMP R2\<close> with FL = 0 and 100 in register 2.\<close>

definition jeq_state :: cpu where
  "jeq_state = init\<lparr>ram := (ram init)[0 := PInt JEQ, 1 := PInt 2, 2 := PInt JMP, 3 := PInt 2],
                    reg := (reg init)[2 := PInt 100]\<rparr>"

text \<open>The program \<open>LDI R0,8; LDI R1,9; ADD R0,R1; PRN R0; HLT\<close> loaded at address 0.\<close>

definition print17 :: cpu where
  "print17 = init\<lparr>ram := (ram init)[0 := PInt LDI, 1 := PInt 0, 2 := PInt 8,
                                      3 := PInt LDI, 4 := PInt 1, 5 := PInt 9,
                                      6 := PInt ADD, 7 := PInt 0, 8 := PInt 1,
                                      9 := PInt PRN, 10 := PInt 0, 11 := PInt HLT]\<rparr>"

section \<open>Symbolic execution and frame lemmas\<close>

subsection \<open>A run of the model\<close>

text \<open>
  Five cycles without a timer interrupt run the sample program to its HLT: 17 is printed,
  PC stands behind the HLT and the machine is halted.
\<close>

lemma run_print17:
  "run [False, False, False, False, False] print17 =
     Some (Inr (print17\<lparr>pc := PInt 12, halted := True,
                  reg := (reg print17)[0 := PInt 17, 1 := PInt 9],
                  out := [Printed (PInt 17)]\<rparr>))"
  by code_simp

subsection \<open>Execution of the primitives\<close>

lemma bind_eq_Inr: "bind m f = Inr y \<longleftrightarrow> (\<exists>x. m = Inr x \<and> f x = Inr y)"
  by (cases m) auto

lemma py_index_256: "- 256 \<le> a \<Longrightarrow> a < 256 \<Longrightarrow> py_index 256 (PInt a) = Inr (slot a)"
  by (simp add: slot_def)

lemma slot_less: "- 256 \<le> a \<Longrightarrow> a < 256 \<Longrightarrow> slot a < 256"
  by (auto simp: slot_def)

lemma slot_eq_iff:
  "- 256 \<le> a \<Longrightarrow> a < 256 \<Longrightarrow> - 256 \<le> b \<Longrightarrow> b < 256 \<Longrightarrow> \<bar>a - b\<bar> < 256 \<Longrightarrow>
     slot a = slot b \<longleftrightarrow> a = b"
  by (auto simp: slot_def)

lemma reg_get_8:
  "length (reg s) = 8 \<Longrightarrow> 0 \<le> k \<Longrightarrow> k < 8 \<Longrightarrow> reg_get s (PInt k) = Inr (reg s ! nat k)"
  by (simp add: reg_get_def)

lemma reg_set_8:
  "length (reg s) = 8 \<Longrightarrow> 0 \<le> k \<Longrightarrow> k < 8 \<Longrightarrow>
     reg_set s (PInt k) v = Inr (s\<lparr>reg := (reg s)[nat k := v]\<rparr>)"
  by (simp add: reg_set_def)

lemma ram_read_256:
  "length (ram s) = 256 \<Longrightarrow> - 256 \<le> a \<Longrightarrow> a < 256 \<Longrightarrow>
     ram_read s (PInt a) = Inr (ram s ! slot a)"
  by (simp add: ram_read_def slot_def)

lemma ram_write_256:
  "length (ram s) = 256 \<Longrightarrow> - 256 \<le> a \<Longrightarrow> a < 256 \<Longrightarrow>
     ram_write s v (PInt a) = Inr (s\<lparr>ram := (ram s)[slot a := v]\<rparr>)"
  by (simp add: ram_write_def slot_def)

lemma push_value_exec:
  assumes "length (ram s) = 256" "length (reg s) = 8" "reg s ! 7 = PInt sp"
    and "- 255 \<le> sp" "sp \<le> 256"
  shows "push_value v s =
           Inr (s\<lparr>ram := (ram s)[slot (sp - 1) := v], reg := (reg s)[7 := PInt (sp - 1)]\<rparr>)"
  using assms
  by (simp add: push_value_def SP_def reg_get_8 reg_set_8 ram_write_256)

lemma pop_value_exec:
  assumes "length (ram s) = 256" "length (reg s) = 8" "reg s ! 7 = PInt sp"
    and "- 256 \<le> sp" "sp < 256"
  shows "pop_value s = Inr (ram s ! slot sp, s\<lparr>reg := (reg s)[7 := PInt (sp + 1)]\<rparr>)"
  using assms
  by (simp add: pop_value_def SP_def reg_get_8 reg_set_8 ram_read_256)


lemma push_regs_exec:
  assumes "length (ram s) = 256" "length (reg s) = 8" "reg s ! 7 = PInt sp"
    and "- 249 \<le> sp" "sp \<le> 256"
  shows "push_regs [0..<7] s =
           Inr (s\<lparr>ram := (ram s)[slot (sp - 1) := reg s ! 0, slot (sp - 2) := reg s ! 1,
                               slot (sp - 3) := reg s ! 2, slot (sp - 4) := reg s ! 3,
                               slot (sp - 5) := reg s ! 4, slot (sp - 6) := reg s ! 5,
                               slot (sp - 7) := reg s ! 6],
                     reg := (reg s)[7 := PInt (sp - 7)]\<rparr>)"
proof -
  have up: "[0..<7] = [0, 1, 2, 3, 4, 5, 6]"
    by (simp add: upt_rec)
  show ?thesis
    using assms unfolding up
    by (simp add: push_value_exec reg_get_8)
qed

lemma service_exec:
  assumes "length (ram s) = 256" "length (reg s) = 8"
    and "reg s ! 6 = PInt isv" "reg s ! 7 = PInt sp"
    and "- 247 \<le> sp" "sp \<le> 256" "i < 8"
  shows "service i s =
           Inr (let ram' = (ram s)[slot (sp - 1) := pc s, slot (sp - 2) := fl s,
                               slot (sp - 3) := reg s ! 0, slot (sp - 4) := reg s ! 1,
                               slot (sp - 5) := reg s ! 2, slot (sp - 6) := reg s ! 3,
                               slot (sp - 7) := reg s ! 4, slot (sp - 8) := reg s ! 5,
                               slot (sp - 9) := PInt (isv AND NOT (2 ^ i))]
                in s\<lparr>pc := ram' ! (248 + i), ie := 0, ram := ram',
                     reg := (reg s)[6 := PInt (isv AND NOT (2 ^ i)), 7 := PInt (sp - 9)]\<rparr>)"
  using assms
  by (simp add: service_def IS_def reg_get_8 reg_set_8 push_value_exec push_regs_exec
      ram_read_256 slot_def[of "248 + int i"] nat_add_distrib Let_def)

lemma scan_find:
  "scan js m s = (case find (\<lambda>i. bit m i) js of None \<Rightarrow> Inr s | Some i \<Rightarrow> service i s)"
  by (induction js) (simp_all add: bit_iff_and_push_bit_not_eq_0 and.commute)

lemma find_lowest:
  "i < n \<Longrightarrow> P i \<Longrightarrow> (\<forall>j<i. \<not> P j) \<Longrightarrow> find P [0..<n] = Some i"
  by (auto simp: find_Some_iff)

lemma find_none_upt: "(\<forall>j<n. \<not> P j) \<Longrightarrow> find P [0..<n] = None"
  by (simp add: find_None_iff)


lemma bit_byte_less:
  assumes "0 \<le> m" "m < 256" "bit (m::int) i"
  shows "i < 8"
proof (rule ccontr)
  assume "\<not> i < 8"
  then have "(2::int) ^ 8 \<le> 2 ^ i"
    by (intro power_increasing) simp_all
  with assms have "m div 2 ^ i = 0"
    by (simp add: div_pos_pos_trivial)
  with assms(3) show False
    by (simp add: bit_iff_odd)
qed

lemma lowest_bit_exists:
  assumes "m \<noteq> (0::int)"
  shows "\<exists>i. bit m i \<and> (\<forall>j<i. \<not> bit m j)"
proof -
  from assms obtain n where "bit m n"
    by (auto simp: bit_eq_iff)
  then have "bit m (LEAST k. bit m k)"
    by (rule LeastI)
  moreover have "\<forall>j<(LEAST k. bit m k). \<not> bit m j"
    using not_less_Least by blast
  ultimately show ?thesis
    by blast
qed

lemma lowest_line_exists:
  assumes "0 \<le> m" "m < 256" "m \<noteq> (0::int)"
  shows "\<exists>i<8. bit m i \<and> (\<forall>j<i. \<not> bit m j)"
  using lowest_bit_exists [OF assms(3)] bit_byte_less [OF assms(1,2)] by blast

lemma handle_interrupts_line:
  assumes "length (reg s) = 8" "reg s ! 5 = PInt im" "reg s ! 6 = PInt isv" "ie s \<noteq> 0"
    and "i < 8" "bit (im AND isv) i" "\<forall>j<i. \<not> bit (im AND isv) j"
  shows "handle_interrupts s = service i s"
  using assms
  by (simp add: handle_interrupts_def IM_def IS_def reg_get_8 scan_find find_lowest)

lemma handle_interrupts_idle:
  assumes "length (reg s) = 8" "reg s ! 5 = PInt im" "reg s ! 6 = PInt isv"
    and "\<forall>j<8. \<not> bit (im AND isv) j"
  shows "handle_interrupts s = Inr s"
  using assms
  by (simp add: handle_interrupts_def IM_def IS_def reg_get_8 scan_find find_none_upt)


lemma reg_set_frame:
  "reg_set s k v = Inr s' \<Longrightarrow>
     pc s' = pc s \<and> fl s' = fl s \<and> inst_set_pc s' = inst_set_pc s"
  by (auto simp: reg_set_def bind_eq_Inr)

lemma ram_write_frame:
  "ram_write s v a = Inr s' \<Longrightarrow>
     pc s' = pc s \<and> fl s' = fl s \<and> inst_set_pc s' = inst_set_pc s"
  by (auto simp: ram_write_def bind_eq_Inr)

lemma push_value_frame:
  "push_value v s = Inr s' \<Longrightarrow>
     pc s' = pc s \<and> fl s' = fl s \<and> inst_set_pc s' = inst_set_pc s"
  by (auto simp: push_value_def bind_eq_Inr dest!: reg_set_frame ram_write_frame)

lemma pop_value_frame:
  "pop_value s = Inr (v, s') \<Longrightarrow>
     pc s' = pc s \<and> fl s' = fl s \<and> inst_set_pc s' = inst_set_pc s"
  by (auto simp: pop_value_def bind_eq_Inr dest!: reg_set_frame)

lemma alu_assign_frame:
  "alu_assign f a b s = Inr s' \<Longrightarrow>
     pc s' = pc s \<and> fl s' = fl s \<and> inst_set_pc s' = inst_set_pc s"
  by (auto simp: alu_assign_def bind_eq_Inr dest!: reg_set_frame)

lemma alu_assign1_frame:
  "alu_assign1 f a s = Inr s' \<Longrightarrow>
     pc s' = pc s \<and> fl s' = fl s \<and> inst_set_pc s' = inst_set_pc s"
  by (auto simp: alu_assign1_def bind_eq_Inr dest!: reg_set_frame)

lemma alu_cmp_frame:
  "alu_cmp a b s = Inr s' \<Longrightarrow> pc s' = pc s \<and> inst_set_pc s' = inst_set_pc s"
  by (auto simp: alu_cmp_def bind_eq_Inr split: if_splits)

lemma alu_frame:
  "alu op a b s = Inr s' \<Longrightarrow>
     pc s' = pc s \<and> inst_set_pc s' = inst_set_pc s \<and> (op \<noteq> ''CMP'' \<longrightarrow> fl s' = fl s)"
  by (auto simp: alu_def split: if_splits
      dest!: alu_assign_frame alu_assign1_frame alu_cmp_frame)


lemmas alu_handler_defs =
  op_add_def op_and_def op_sub_def op_mul_def op_div_def op_dec_def op_inc_def
  op_or_def op_xor_def op_shl_def

lemma alu_handlers_frame:
  assumes "h \<in> {op_add, op_and, op_sub, op_mul, op_div, op_dec, op_inc, op_or, op_xor, op_shl}"
    and "h a b s = Inr s'"
  shows "pc s' = pc s \<and> fl s' = fl s \<and> inst_set_pc s' = inst_set_pc s"
  using assms by (auto simp: alu_handler_defs dest!: alu_frame)

lemma op_cmp_frame:
  "op_cmp a b s = Inr s' \<Longrightarrow> pc s' = pc s \<and> inst_set_pc s' = inst_set_pc s"
  by (auto simp: op_cmp_def dest!: alu_frame)

lemma op_pra_frame:
  assumes "op_pra a b s = Inr s'"
  shows "pc s' = pc s \<and> fl s' = fl s \<and> inst_set_pc s' = inst_set_pc s"
proof -
  from assms obtain v where v: "reg_get s a = Inr v"
    and r: "(case v of
               PInt c \<Rightarrow> if 0 \<le> c \<and> c < 1114112
                        then Inr (s\<lparr>out := out s @ [Printed_char c]\<rparr>) else Inl ValueError
             | PFloat x y \<Rightarrow> Inl TypeError
             | PNone \<Rightarrow> Inl TypeError) = Inr s'"
    by (auto simp: op_pra_def bind_eq_Inr)
  from r show ?thesis
    by (cases v) (auto split: if_splits)
qed

lemma data_handlers_frame:
  assumes "h \<in> {op_ldi, op_ld, op_st, op_push, op_pop, op_prn, op_pra, op_hlt}"
    and "h a b s = Inr s'"
  shows "pc s' = pc s \<and> fl s' = fl s \<and> inst_set_pc s' = inst_set_pc s"
  using assms
  by (auto simp: op_ldi_def op_ld_def op_st_def op_push_def op_pop_def op_prn_def
      op_hlt_def bind_eq_Inr
      dest!: reg_set_frame ram_write_frame push_value_frame pop_value_frame op_pra_frame)

lemma jump_handlers_frame:
  assumes "h \<in> {op_jmp, op_jeq, op_jne, op_jlt, op_jle, op_call, op_ret}"
    and "h a b s = Inr s'"
  shows "fl s' = fl s"
  using assms
  by (auto simp: op_jmp_def op_jeq_def op_jne_def op_jlt_def op_jle_def op_call_def
      op_ret_def bind_eq_Inr
      split: if_splits
      dest!: push_value_frame pop_value_frame)

lemma branch_table_cases:
  assumes "branch_table ir = Some h"
  shows "(ir = ADD \<and> h = op_add) \<or> (ir = AND_op \<and> h = op_and) \<or> (ir = CALL \<and> h = op_call) \<or>
         (ir = CMP \<and> h = op_cmp) \<or> (ir = DEC \<and> h = op_dec) \<or> (ir = DIV \<and> h = op_div) \<or>
         (ir = HLT \<and> h = op_hlt) \<or> (ir = INC \<and> h = op_inc) \<or> (ir = IRET \<and> h = op_iret) \<or>
         (ir = JEQ \<and> h = op_jeq) \<or> (ir = JLE \<and> h = op_jle) \<or> (ir = JLT \<and> h = op_jlt) \<or>
         (ir = JMP \<and> h = op_jmp) \<or> (ir = JNE \<and> h = op_jne) \<or> (ir = LD \<and> h = op_ld) \<or>
         (ir = LDI \<and> h = op_ldi) \<or> (ir = MUL \<and> h = op_mul) \<or> (ir = OR_op \<and> h = op_or) \<or>
         (ir = POP \<and> h = op_pop) \<or> (ir = PRA \<and> h = op_pra) \<or> (ir = PRN \<and> h = op_prn) \<or>
         (ir = PUSH \<and> h = op_push) \<or> (ir = RET \<and> h = op_ret) \<or> (ir = SHL \<and> h = op_shl) \<or>
         (ir = ST \<and> h = op_st) \<or> (ir = SUB \<and> h = op_sub) \<or> (ir = XOR_op \<and> h = op_xor)"
  using assms
  by (simp add: branch_table_def opcode_defs split: if_splits)

lemma replicate_8: "replicate 8 x = [x, x, x, x, x, x, x, x]"
  by (simp add: eval_nat_numeral)

lemma pop_regs_exec:
  assumes "length (ram s) = 256" "length (reg s) = 8" "reg s ! 7 = PInt t"
    and "- 256 \<le> t" "t \<le> 249"
  shows "pop_regs [6, 5, 4, 3, 2, 1, 0] s =
           Inr (s\<lparr>reg := [ram s ! slot (t + 6), ram s ! slot (t + 5), ram s ! slot (t + 4),
                             ram s ! slot (t + 3), ram s ! slot (t + 2), ram s ! slot (t + 1),
                             ram s ! slot t, PInt (t + 7)]\<rparr>)"
proof -
  from assms(2) obtain r0 r1 r2 r3 r4 r5 r6 r7 where r: "reg s = [r0, r1, r2, r3, r4, r5, r6, r7]"
    by (auto simp: length_Suc_conv eval_nat_numeral)
  show ?thesis
    using assms by (simp add: pop_value_exec reg_set_8 r add.commute)
qed

lemma op_iret_exec:
  assumes "length (ram s) = 256" "length (reg s) = 8" "reg s ! 7 = PInt t"
    and "- 256 \<le> t" "t \<le> 247"
  shows "op_iret a b s =
           Inr (s\<lparr>pc := ram s ! slot (t + 8), fl := ram s ! slot (t + 7), ie := 1,
                     reg := [ram s ! slot (t + 6), ram s ! slot (t + 5), ram s ! slot (t + 4),
                             ram s ! slot (t + 3), ram s ! slot (t + 2), ram s ! slot (t + 1),
                             ram s ! slot t, PInt (t + 9)]\<rparr>)"
proof -
  from assms(5) have "t \<le> 249"
    by simp
  note regs = pop_regs_exec [OF assms(1-4) this]
  show ?thesis
    unfolding op_iret_def regs using assms
    by (simp add: pop_value_exec add.commute)
qed

lemma cmp_mask_low: "(f AND 286330880) AND 7 = (0::int)"
proof -
  have "(286330880::int) AND 7 = 0" by simp
  then show ?thesis by (simp add: and.assoc)
qed

lemma or_flag_low: "c AND 7 = c \<Longrightarrow> ((f AND 286330880) OR c) AND 7 = (c::int)"
  by (simp add: bit.conj_disj_distrib2 cmp_mask_low)


lemma service_saved:
  assumes "length (ram s) = 256" "length (reg s) = 8"
    and "reg s ! 6 = PInt isv" "reg s ! 7 = PInt sp"
    and "- 247 \<le> sp" "sp \<le> 256" "i < 8"
    and "service i s = Inr s1"
  shows "length (ram s1) = 256 \<and> length (reg s1) = 8 \<and> reg s1 ! 7 = PInt (sp - 9) \<and>
         ram s1 ! slot (sp - 1) = pc s \<and> ram s1 ! slot (sp - 2) = fl s \<and>
         ram s1 ! slot (sp - 3) = reg s ! 0 \<and> ram s1 ! slot (sp - 4) = reg s ! 1 \<and>
         ram s1 ! slot (sp - 5) = reg s ! 2 \<and> ram s1 ! slot (sp - 6) = reg s ! 3 \<and>
         ram s1 ! slot (sp - 7) = reg s ! 4 \<and> ram s1 ! slot (sp - 8) = reg s ! 5 \<and>
         ram s1 ! slot (sp - 9) = PInt (isv AND NOT (2 ^ i))"
proof -
  from assms(8) service_exec [OF assms(1-7)]
  have s1: "s1 = (let ram' = (ram s)[slot (sp - 1) := pc s, slot (sp - 2) := fl s,
                               slot (sp - 3) := reg s ! 0, slot (sp - 4) := reg s ! 1,
                               slot (sp - 5) := reg s ! 2, slot (sp - 6) := reg s ! 3,
                               slot (sp - 7) := reg s ! 4, slot (sp - 8) := reg s ! 5,
                               slot (sp - 9) := PInt (isv AND NOT (2 ^ i))]
                in s\<lparr>pc := ram' ! (248 + i), ie := 0, ram := ram',
                     reg := (reg s)[6 := PInt (isv AND NOT (2 ^ i)), 7 := PInt (sp - 9)]\<rparr>)"
    by simp
  show ?thesis
    unfolding s1 Let_def using assms(1-7)
    by (simp add: nth_list_update slot_eq_iff slot_less)
qed

lemma handle_interrupts_irq_state: "handle_interrupts irq_state = Inr irq_entered"
proof -
  have "handle_interrupts irq_state = service 1 irq_state"
    by (rule handle_interrupts_line [where im = 3 and isv = 6])
      (simp_all add: irq_state_def init_def replicate_8 bit_iff_odd)
  also have "\<dots> = Inr irq_entered"
    by (subst service_exec [where isv = 6 and sp = 244])
      (simp_all add: irq_state_def irq_entered_def init_def replicate_8 slot_def)
  finally show ?thesis .
qed

lemma op_iret_irq_entered: "op_iret a b irq_entered = Inr irq_returned"
  by (subst op_iret_exec [where t = 235])
    (simp_all add: irq_entered_def irq_state_def irq_returned_def init_def replicate_8 slot_def)

lemma op_call_exec:
  assumes "length (ram s) = 256" "length (reg s) = 8" "pc s = PInt p" "reg s ! 7 = PInt sp"
    and "- 255 \<le> sp" "sp \<le> 256" "py_index 8 a = Inr k"
  shows "op_call a b s =
           Inr (s\<lparr>pc := (reg s)[7 := PInt (sp - 1)] ! k,
                     ram := (ram s)[slot (sp - 1) := PInt (p + 2)],
                     reg := (reg s)[7 := PInt (sp - 1)]\<rparr>)"
  using assms
  by (simp add: op_call_def push_value_exec reg_get_def)

lemma op_ret_exec:
  assumes "length (ram s) = 256" "length (reg s) = 8" "reg s ! 7 = PInt t"
    and "- 256 \<le> t" "t < 256"
  shows "op_ret a b s = Inr (s\<lparr>pc := ram s ! slot t, reg := (reg s)[7 := PInt (t + 1)]\<rparr>)"
  using assms
  by (simp add: op_ret_def pop_value_exec)

lemma length_stack_write: "length (stack_write m sp vs) = length m"
  by (induction vs arbitrary: m sp) simp_all

lemma push_values_exec:
  assumes "length (ram s) = 256" "length (reg s) = 8" "reg s ! 7 = PInt sp"
    and "sp \<le> 256" "- 256 \<le> sp - int (length vs)"
  shows "push_values vs s =
           Inr (s\<lparr>ram := stack_write (ram s) sp vs,
                     reg := (reg s)[7 := PInt (sp - int (length vs))]\<rparr>)"
  using assms
proof (induction vs arbitrary: s sp)
  case Nil
  then show ?case
    by (simp add: list_update_same_conv [THEN iffD2])
next
  case (Cons v vs)
  let ?s = "s\<lparr>ram := (ram s)[slot (sp - 1) := v], reg := (reg s)[7 := PInt (sp - 1)]\<rparr>"
  from Cons.prems have "push_value v s = Inr ?s"
    by (intro push_value_exec) simp_all
  moreover from Cons.prems
  have "push_values vs ?s =
          Inr (?s\<lparr>ram := stack_write (ram ?s) (sp - 1) vs,
                    reg := (reg ?s)[7 := PInt (sp - 1 - int (length vs))]\<rparr>)"
    by (intro Cons.IH) simp_all
  ultimately show ?case
    by (simp add: algebra_simps)
qed

lemma pop_values_exec:
  assumes "length (ram s) = 256" "length (reg s) = 8" "reg s ! 7 = PInt t"
    and "- 256 \<le> t" "t + int n \<le> 256"
  shows "pop_values n s =
           Inr (map (\<lambda>j. ram s ! slot (t + int j)) [0..<n],
                s\<lparr>reg := (reg s)[7 := PInt (t + int n)]\<rparr>)"
  using assms
proof (induction n arbitrary: s t)
  case 0
  then show ?case
    by (simp add: list_update_same_conv [THEN iffD2])
next
  case (Suc n)
  let ?s = "s\<lparr>reg := (reg s)[7 := PInt (t + 1)]\<rparr>"
  from Suc.prems have "pop_value s = Inr (ram s ! slot t, ?s)"
    by (intro pop_value_exec) simp_all
  moreover from Suc.prems
  have "pop_values n ?s =
          Inr (map (\<lambda>j. ram ?s ! slot (t + 1 + int j)) [0..<n],
               ?s\<lparr>reg := (reg ?s)[7 := PInt (t + 1 + int n)]\<rparr>)"
    by (intro Suc.IH) simp_all
  moreover have "map (\<lambda>j. ram s ! slot (t + int j)) [0..<Suc n] =
      ram s ! slot t # map (\<lambda>j. ram s ! slot (t + 1 + int j)) [0..<n]"
    by (simp add: upt_conv_Cons map_Suc_upt [symmetric] del: upt_Suc) (simp add: algebra_simps)
  ultimately show ?case
    by (simp add: algebra_simps del: upt_Suc)
qed

lemma stack_write_other:
  assumes "\<forall>i\<in>{1..int (length vs)}. slot (sp - i) \<noteq> c"
  shows "stack_write m sp vs ! c = m ! c"
  using assms
proof (induction vs arbitrary: m sp)
  case Nil
  then show ?case by simp
next
  case (Cons v vs)
  have "\<forall>i\<in>{1..int (length vs)}. slot (sp - 1 - i) \<noteq> c"
  proof
    fix i assume "i \<in> {1..int (length vs)}"
    then have "i + 1 \<in> {1..int (length (v # vs))}"
      by simp
    with Cons.prems have "slot (sp - (i + 1)) \<noteq> c"
      by blast
    then show "slot (sp - 1 - i) \<noteq> c"
      by (simp add: algebra_simps)
  qed
  then have "stack_write (m[slot (sp - 1) := v]) (sp - 1) vs ! c = m[slot (sp - 1) := v] ! c"
    by (rule Cons.IH)
  moreover from Cons.prems have "slot (sp - 1) \<noteq> c"
    by simp
  ultimately show ?case
    by simp
qed

lemma stack_write_nth:
  assumes "length m = 256" "sp \<le> 256" "- 256 \<le> sp - int (length vs)" "length vs \<le> 256"
    and "j < length vs"
  shows "stack_write m sp vs ! slot (sp - 1 - int j) = vs ! j"
  using assms
proof (induction vs arbitrary: m sp j)
  case Nil
  then show ?case by simp
next
  case (Cons v vs)
  show ?case
  proof (cases j)
    case 0
    have "\<forall>i\<in>{1..int (length vs)}. slot (sp - 1 - i) \<noteq> slot (sp - 1)"
    proof
      fix i assume "i \<in> {1..int (length vs)}"
      with Cons.prems show "slot (sp - 1 - i) \<noteq> slot (sp - 1)"
        by (subst slot_eq_iff) simp_all
    qed
    then have "stack_write (m[slot (sp - 1) := v]) (sp - 1) vs ! slot (sp - 1) =
        m[slot (sp - 1) := v] ! slot (sp - 1)"
      by (rule stack_write_other)
    with Cons.prems 0 show ?thesis
      by (simp add: slot_less)
  next
    case (Suc j')
    with Cons.prems
    have "stack_write (m[slot (sp - 1) := v]) (sp - 1) vs ! slot (sp - 1 - 1 - int j') = vs ! j'"
      by (intro Cons.IH) simp_all
    with Suc show ?thesis
      by (simp add: algebra_simps)
  qed
qed

lemma push_pop_values:
  assumes "length (ram s) = 256" "length (reg s) = 8" "reg s ! 7 = PInt sp"
    and "sp \<le> 256" "- 256 \<le> sp - int (length vs)" "length vs \<le> 256"
  shows "\<exists>s1 s2. push_values vs s = Inr s1 \<and> pop_values (length vs) s1 = Inr (rev vs, s2) \<and>
           reg s2 = reg s"
proof -
  let ?n = "length vs"
  let ?s1 = "s\<lparr>ram := stack_write (ram s) sp vs, reg := (reg s)[7 := PInt (sp - int ?n)]\<rparr>"
  have push: "push_values vs s = Inr ?s1"
    using assms(1-5) by (rule push_values_exec)
  have "pop_values ?n ?s1 =
          Inr (map (\<lambda>j. ram ?s1 ! slot (sp - int ?n + int j)) [0..<?n],
               ?s1\<lparr>reg := (reg ?s1)[7 := PInt (sp - int ?n + int ?n)]\<rparr>)"
    using assms by (intro pop_values_exec) (simp_all add: length_stack_write)
  moreover have "map (\<lambda>j. ram ?s1 ! slot (sp - int ?n + int j)) [0..<?n] = rev vs"
  proof (rule nth_equalityI)
    show "length (map (\<lambda>j. ram ?s1 ! slot (sp - int ?n + int j)) [0..<?n]) = length (rev vs)"
      by simp
  next
    fix j assume "j < length (map (\<lambda>j. ram ?s1 ! slot (sp - int ?n + int j)) [0..<?n])"
    then have j: "j < ?n"
      by simp
    then have eq: "sp - int ?n + int j = sp - 1 - int (?n - Suc j)"
      by (simp add: of_nat_diff)
    from j have "?n - Suc j < ?n"
      by simp
    from stack_write_nth [OF assms(1,4,5,6) this]
    have w: "stack_write (ram s) sp vs ! slot (sp - 1 - int (?n - Suc j)) = vs ! (?n - Suc j)" .
    from j have "map (\<lambda>j. ram ?s1 ! slot (sp - int ?n + int j)) [0..<?n] ! j =
        stack_write (ram s) sp vs ! slot (sp - int ?n + int j)"
      by simp
    also have "\<dots> = vs ! (?n - Suc j)"
      unfolding eq by (rule w)
    also from j have "\<dots> = rev vs ! j"
      by (simp add: rev_nth)
    finally show "map (\<lambda>j. ram ?s1 ! slot (sp - int ?n + int j)) [0..<?n] ! j = rev vs ! j" .
  qed
  moreover from assms(3) have "(reg s)[7 := PInt sp] = reg s"
    by (metis list_update_id)
  ultimately have "pop_values ?n ?s1 = Inr (rev vs, ?s1\<lparr>reg := reg s\<rparr>)"
    by simp
  with push show ?thesis
    by simp
qed

lemma push_then_pop:
  assumes "length (ram s) = 256" "length (reg s) = 8" "reg s ! 7 = PInt sp"
    and "- 255 \<le> sp" "sp \<le> 256"
    and "py_index 8 a = Inr k" "py_index 8 b = Inr l" "l \<noteq> 7"
  shows "\<exists>s1 s2. op_push a c s = Inr s1 \<and> op_pop b c' s1 = Inr s2 \<and>
           reg s2 ! l = reg s ! k \<and> reg s2 ! 7 = reg s ! 7"
proof -
  from assms(6) have k: "k < 8"
    by (cases a) (auto split: if_splits)
  from assms(7) have l: "l < 8"
    by (cases b) (auto split: if_splits)
  note kl = k l
  let ?s1 = "s\<lparr>ram := (ram s)[slot (sp - 1) := reg s ! k], reg := (reg s)[7 := PInt (sp - 1)]\<rparr>"
  from assms have push: "op_push a c s = Inr ?s1"
    by (simp add: op_push_def reg_get_def push_value_exec)
  from assms have "pop_value ?s1 =
      Inr (ram ?s1 ! slot (sp - 1), ?s1\<lparr>reg := (reg ?s1)[7 := PInt (sp - 1 + 1)]\<rparr>)"
    by (intro pop_value_exec) simp_all
  with assms kl have "op_pop b c' ?s1 =
      Inr (?s1\<lparr>reg := (reg s)[7 := PInt sp, l := reg s ! k]\<rparr>)"
    by (simp add: op_pop_def reg_set_def slot_less)
  with push assms(2,3,8) kl show ?thesis
    by simp
qed

lemma fetch_in_range:
  assumes "length (ram s) = 256" "pc s = PInt p" "0 \<le> p" "p \<le> 253"
  shows "fetch s = Inr (ram s ! nat p, ram s ! nat (p + 1), ram s ! nat (p + 2))"
  using assms by (simp add: fetch_def ram_read_def)

lemma fetch_out_of_range:
  assumes "length (ram s) = 256" "pc s = PInt p" "254 \<le> p"
  shows "fetch s = Inl IndexError"
  using assms by (simp add: fetch_def ram_read_def)

lemma trace_regs_ok:
  "list_all is_int (reg s) \<Longrightarrow> \<forall>i\<in>set js. i < length (reg s) \<Longrightarrow> trace_regs js s = Inr ()"
proof (induction js)
  case Nil
  then show ?case by simp
next
  case (Cons i js)
  then have "i < length (reg s)" and "is_int (reg s ! i)"
    by (simp_all add: list_all_length)
  then have "reg_get s (PInt (int i)) = Inr (reg s ! i)" "fmt_X [reg s ! i] = Inr ()"
    by (simp_all add: reg_get_def fmt_X_def)
  with Cons show ?case
    by simp
qed

lemma fetch_InrD:
  assumes "fetch s = Inr (ir, a, b)"
  shows "\<exists>p1 p2. ram_read s (pc s) = Inr ir \<and> py_add (pc s) (PInt 1) = Inr p1 \<and>
           ram_read s p1 = Inr a \<and> py_add (pc s) (PInt 2) = Inr p2 \<and> ram_read s p2 = Inr b"
proof -
  from assms obtain ir' where 1: "ram_read s (pc s) = Inr ir'"
    and r1: "bind (py_add (pc s) (PInt 1)) (\<lambda>p1.
       bind (ram_read s p1) (\<lambda>operand_a.
       bind (py_add (pc s) (PInt 2)) (\<lambda>p2.
       bind (ram_read s p2) (\<lambda>operand_b.
       Inr (ir', operand_a, operand_b))))) = Inr (ir, a, b)"
    unfolding fetch_def bind_eq_Inr by blast
  from r1 obtain p1 where 2: "py_add (pc s) (PInt 1) = Inr p1"
    and r2: "bind (ram_read s p1) (\<lambda>operand_a.
       bind (py_add (pc s) (PInt 2)) (\<lambda>p2.
       bind (ram_read s p2) (\<lambda>operand_b.
       Inr (ir', operand_a, operand_b)))) = Inr (ir, a, b)"
    unfolding bind_eq_Inr by blast
  from r2 obtain a' where 3: "ram_read s p1 = Inr a'"
    and r3: "bind (py_add (pc s) (PInt 2)) (\<lambda>p2.
       bind (ram_read s p2) (\<lambda>operand_b.
       Inr (ir', a', operand_b))) = Inr (ir, a, b)"
    unfolding bind_eq_Inr by blast
  from r3 obtain p2 where 4: "py_add (pc s) (PInt 2) = Inr p2"
    and r4: "bind (ram_read s p2) (\<lambda>operand_b. Inr (ir', a', operand_b)) = Inr (ir, a, b)"
    unfolding bind_eq_Inr by blast
  from r4 obtain b' where 5: "ram_read s p2 = Inr b'" and 6: "(ir', a', b') = (ir, a, b)"
    unfolding bind_eq_Inr by blast
  from 1 2 3 4 5 6 show ?thesis
    by simp
qed

lemma ram_read_inst_set_pc [simp]: "ram_read (s\<lparr>inst_set_pc := c\<rparr>) a = ram_read s a"
  by (simp add: ram_read_def)

lemma trace_ok:
  assumes "fetch s = Inr (PInt ir, a, b)" "pc s = PInt p" "is_int (fl s)" "is_int a" "is_int b"
    and "length (reg s) = 8" "list_all is_int (reg s)"
  shows "trace (s\<lparr>inst_set_pc := c\<rparr>) (PInt ir) a b = Inr ()"
proof -
  from assms(7) assms(6) have "trace_regs [0..<8] (s\<lparr>inst_set_pc := c\<rparr>) = Inr ()"
    by (intro trace_regs_ok) simp_all
  moreover from fetch_InrD [OF assms(1)]
  obtain p1 p2 where "ram_read s (pc s) = Inr (PInt ir)" "py_add (pc s) (PInt 1) = Inr p1"
    "ram_read s p1 = Inr a" "py_add (pc s) (PInt 2) = Inr p2" "ram_read s p2 = Inr b"
    by blast
  ultimately show ?thesis
    using assms(2-5) by (simp add: trace_def fmt_X_def del: upt_Suc)
qed

lemma execute_dispatch:
  assumes "fetch s = Inr (PInt ir, a, b)" "pc s = PInt p" "is_int (fl s)" "is_int a" "is_int b"
    and "length (reg s) = 8" "list_all is_int (reg s)"
  shows "execute s =
           (case branch_table ir of
              Some h \<Rightarrow> bind (h a b (s\<lparr>inst_set_pc := (drop_bit 4 ir AND 1 = 1)\<rparr>))
                         (advance ((drop_bit 6 ir AND 3) + 1))
            | None \<Rightarrow> Inl (Invalid_Instruction ir p))"
proof -
  note t = trace_ok [OF assms, of "drop_bit 4 ir AND 1 = 1"]
  show ?thesis
    unfolding execute_def assms(1) by (simp add: Let_def t assms(2))
qed

lemma bit4_flag: "(drop_bit 4 ir AND 1 = 1) = bit (ir::int) 4"
  by (simp add: bit_iff_odd_drop_bit and_one_eq mod_2_eq_odd)

lemma advance_plain:
  assumes "advance n s2 = Inr s'" "\<not> inst_set_pc s2" "pc s2 = PInt p"
  shows "pc s' = PInt (p + n)"
  using assms by (auto simp: advance_def)

lemma advance_set:
  assumes "advance n s2 = Inr s'" "inst_set_pc s2"
  shows "s' = s2"
  using assms by (simp add: advance_def)

lemma pop_regs_frame:
  "pop_regs js s = Inr s' \<Longrightarrow> inst_set_pc s' = inst_set_pc s"
proof (induction js arbitrary: s)
  case Nil
  then show ?case by simp
next
  case (Cons j js)
  from Cons.prems obtain v s1 s2 where "pop_value s = Inr (v, s1)"
    and "reg_set s1 (PInt (int j)) v = Inr s2" and "pop_regs js s2 = Inr s'"
    by (auto simp: bind_eq_Inr)
  with Cons.IH [of s2] show ?case
    by (auto dest!: pop_value_frame reg_set_frame)
qed

lemma op_iret_frame:
  assumes "op_iret a b s = Inr s'"
  shows "inst_set_pc s' = inst_set_pc s"
proof -
  from assms obtain s1 f s2 p s3 where 1: "pop_regs [6, 5, 4, 3, 2, 1, 0] s = Inr s1"
    and 2: "pop_value s1 = Inr (f, s2)" and 3: "pop_value (s2\<lparr>fl := f\<rparr>) = Inr (p, s3)"
    and 4: "s' = s3\<lparr>pc := p, ie := 1\<rparr>"
    by (auto simp: op_iret_def bind_eq_Inr simp del: pop_regs.simps)
  from pop_regs_frame [OF 1] pop_value_frame [OF 2] pop_value_frame [OF 3] 4
  show ?thesis
    by simp
qed

lemma unconditional_jumps_frame:
  assumes "h \<in> {op_jmp, op_call, op_ret, op_iret}" and "h a b s = Inr s'"
  shows "inst_set_pc s' = inst_set_pc s"
  using assms
  by (auto simp: op_jmp_def op_call_def op_ret_def bind_eq_Inr
      dest!: push_value_frame pop_value_frame op_iret_frame)

lemma conditional_jumps:
  assumes "(ir = JEQ \<and> h = op_jeq) \<or> (ir = JNE \<and> h = op_jne) \<or>
           (ir = JLT \<and> h = op_jlt) \<or> (ir = JLE \<and> h = op_jle)"
    and "fl s = PInt f" and "h a b s = Inr s'"
  shows "if declines ir f then s' = s\<lparr>inst_set_pc := False\<rparr>
         else inst_set_pc s' = inst_set_pc s"
  using assms
  by (auto simp: declines_def op_jeq_def op_jne_def op_jlt_def op_jle_def opcode_defs
      bind_eq_Inr split: if_splits)

lemma execute_InrD:
  assumes "execute s = Inr s'" and "fetch s = Inr (PInt ir, a, b)"
  shows "\<exists>h s2. branch_table ir = Some h \<and>
           h a b (s\<lparr>inst_set_pc := bit ir 4\<rparr>) = Inr s2 \<and>
           advance ((drop_bit 6 ir AND 3) + 1) s2 = Inr s'"
  using assms(1) unfolding execute_def assms(2)
  by (auto simp: Let_def bind_eq_Inr bit4_flag split: pyval.splits option.splits)

lemma bit4_opcodes:
  "\<not> bit ADD 4" "\<not> bit AND_op 4" "\<not> bit SUB 4" "\<not> bit MUL 4" "\<not> bit DIV 4"
  "\<not> bit DEC 4" "\<not> bit INC 4" "\<not> bit OR_op 4" "\<not> bit XOR_op 4" "\<not> bit SHL 4"
  "\<not> bit CMP 4" "\<not> bit LDI 4" "\<not> bit LD 4" "\<not> bit ST 4" "\<not> bit PUSH 4"
  "\<not> bit POP 4" "\<not> bit PRN 4" "\<not> bit PRA 4" "\<not> bit HLT 4"
  "bit JMP 4" "bit JEQ 4" "bit JNE 4" "bit JLT 4" "bit JLE 4" "bit CALL 4" "bit RET 4"
  "bit IRET 4"
  by (simp_all add: opcode_defs bit_iff_odd)

lemma handler_pc_cases:
  assumes "branch_table ir = Some h" and "h a b s1 = Inr s2" and "fl s1 = PInt f"
  shows "(\<not> bit ir 4 \<and> \<not> declines ir f \<and> pc s2 = pc s1 \<and> inst_set_pc s2 = inst_set_pc s1) \<or>
         (bit ir 4 \<and> declines ir f \<and> s2 = s1\<lparr>inst_set_pc := False\<rparr>) \<or>
         (bit ir 4 \<and> \<not> declines ir f \<and> inst_set_pc s2 = inst_set_pc s1)"
proof -
  from branch_table_cases [OF assms(1)]
  consider
    (alu) "h \<in> {op_add, op_and, op_sub, op_mul, op_div, op_dec, op_inc, op_or, op_xor, op_shl}"
      "\<not> bit ir 4" "ir \<notin> {JEQ, JNE, JLT, JLE}"
    | (data) "h \<in> {op_ldi, op_ld, op_st, op_push, op_pop, op_prn, op_pra, op_hlt}"
      "\<not> bit ir 4" "ir \<notin> {JEQ, JNE, JLT, JLE}"
    | (cmp) "h = op_cmp" "\<not> bit ir 4" "ir \<notin> {JEQ, JNE, JLT, JLE}"
    | (jump) "h \<in> {op_jmp, op_call, op_ret, op_iret}" "bit ir 4" "ir \<notin> {JEQ, JNE, JLT, JLE}"
    | (cond) "(ir = JEQ \<and> h = op_jeq) \<or> (ir = JNE \<and> h = op_jne) \<or>
              (ir = JLT \<and> h = op_jlt) \<or> (ir = JLE \<and> h = op_jle)" "bit ir 4"
    using bit4_opcodes by (elim disjE conjE) (simp_all add: opcode_defs)
  then show ?thesis
  proof cases
    case alu
    from alu_handlers_frame [OF alu(1) assms(2)] alu(2,3) show ?thesis
      by (simp add: declines_def)
  next
    case data
    from data_handlers_frame [OF data(1) assms(2)] data(2,3) show ?thesis
      by (simp add: declines_def)
  next
    case cmp
    from op_cmp_frame [of a b s1 s2] assms(2) cmp show ?thesis
      by (simp add: declines_def)
  next
    case jump
    from unconditional_jumps_frame [OF jump(1) assms(2)] jump(2,3) show ?thesis
      by (simp add: declines_def)
  next
    case cond
    from conditional_jumps [OF cond(1) assms(3,2)] cond(2) show ?thesis
      by (simp split: if_splits)
  qed
qed

lemma execute_jeq_state:
  "execute jeq_state = Inr (jeq_state\<lparr>pc := PInt 2, inst_set_pc := False\<rparr>)"
proof -
  have f: "fetch jeq_state = Inr (PInt JEQ, PInt 2, PInt JMP)" "pc jeq_state = PInt 0"
    "is_int (fl jeq_state)" "is_int (PInt 2)" "is_int (PInt JMP)"
    "length (reg jeq_state) = 8" "list_all is_int (reg jeq_state)"
    by (simp_all add: jeq_state_def init_def fetch_def ram_read_def replicate_8)
  have b: "branch_table JEQ = Some op_jeq"
    by (simp add: branch_table_def opcode_defs)
  show ?thesis
    unfolding execute_dispatch [OF f] b
    by (simp add: op_jeq_def advance_def jeq_state_def init_def FL_EQ_def JEQ_def)
qed

lemma execute_jmp_state:
  "execute (jeq_state\<lparr>pc := PInt 2\<rparr>) = Inr (jeq_state\<lparr>pc := PInt 100, inst_set_pc := True\<rparr>)"
proof -
  have f: "fetch (jeq_state\<lparr>pc := PInt 2\<rparr>) = Inr (PInt JMP, PInt 2, PInt 0)"
    "pc (jeq_state\<lparr>pc := PInt 2\<rparr>) = PInt 2"
    "is_int (fl (jeq_state\<lparr>pc := PInt 2\<rparr>))" "is_int (PInt 2)" "is_int (PInt 0)"
    "length (reg (jeq_state\<lparr>pc := PInt 2\<rparr>)) = 8"
    "list_all is_int (reg (jeq_state\<lparr>pc := PInt 2\<rparr>))"
    by (simp_all add: jeq_state_def init_def fetch_def ram_read_def replicate_8)
  have b: "branch_table JMP = Some op_jmp"
    by (simp add: branch_table_def opcode_defs)
  show ?thesis
    unfolding execute_dispatch [OF f] b
    by (simp add: op_jmp_def advance_def reg_get_def jeq_state_def init_def JMP_def replicate_8)
qed

section \<open>The claims\<close>

subsection \<open>C1: interrupt dispatch\<close>

text \<open>
  Claim C1. Take a machine with 256 memory cells and 8 registers whose stack pointer
  leaves room for nine pushes and whose \<open>masked = IM & IS\<close> is a byte. If IE is 0,
  \<open>handle_interrupts\<close> changes nothing. Otherwise, if \<open>masked\<close> is 0 it changes nothing,
  and if \<open>masked\<close> is not 0 it services exactly the lowest set bit \<open>i\<close> of \<open>masked\<close>
  (a bit set in both IM and IS): IE becomes 0, bit \<open>i\<close> of IS is cleared, PC, FL and
  registers 0 to 6 are pushed in this order (register 6 with the bit already cleared),
  PC becomes the content of cell \<open>0xF8 + i\<close>, and nothing else changes.
\<close>

theorem interrupt_dispatch:
  assumes "length (ram s) = 256" and "length (reg s) = 8"
    and "reg s ! 5 = PInt im" and "reg s ! 6 = PInt isv" and "reg s ! 7 = PInt sp"
    and "0 \<le> im AND isv" and "im AND isv < 256"
    and "- 247 \<le> sp" and "sp \<le> 256"
  shows "(ie s = 0 \<longrightarrow> handle_interrupts s = Inr s) \<and>
         (ie s \<noteq> 0 \<and> im AND isv = 0 \<longrightarrow> handle_interrupts s = Inr s) \<and>
         (ie s \<noteq> 0 \<and> im AND isv \<noteq> 0 \<longrightarrow>
            (\<exists>i<8. bit im i \<and> bit isv i \<and> (\<forall>j<i. \<not> bit (im AND isv) j) \<and>
               handle_interrupts s =
                 Inr (let ram' = (ram s)[slot (sp - 1) := pc s, slot (sp - 2) := fl s,
                                     slot (sp - 3) := reg s ! 0, slot (sp - 4) := reg s ! 1,
                                     slot (sp - 5) := reg s ! 2, slot (sp - 6) := reg s ! 3,
                                     slot (sp - 7) := reg s ! 4, slot (sp - 8) := reg s ! 5,
                                     slot (sp - 9) := PInt (isv AND NOT (2 ^ i))]
                      in s\<lparr>pc := ram' ! (248 + i), ie := 0, ram := ram',
                           reg := (reg s)[6 := PInt (isv AND NOT (2 ^ i)),
                                          7 := PInt (sp - 9)]\<rparr>)))"
proof (intro conjI impI)
  assume "ie s = 0"
  then show "handle_interrupts s = Inr s"
    by (simp add: handle_interrupts_def)
next
  assume "ie s \<noteq> 0 \<and> im AND isv = 0"
  then have "\<forall>j<8. \<not> bit (im AND isv) j"
    by simp
  from handle_interrupts_idle [OF assms(2,3,4) this]
  show "handle_interrupts s = Inr s" .
next
  assume a: "ie s \<noteq> 0 \<and> im AND isv \<noteq> 0"
  with lowest_line_exists [OF assms(6,7)]
  obtain i where i: "i < 8" "bit (im AND isv) i" "\<forall>j<i. \<not> bit (im AND isv) j"
    by blast
  from a have "ie s \<noteq> 0"
    by simp
  from handle_interrupts_line [OF assms(2,3,4) this i]
  have "handle_interrupts s = service i s" .
  also note service_exec [OF assms(1,2,4,5,8,9) i(1)]
  finally show "\<exists>i<8. bit im i \<and> bit isv i \<and> (\<forall>j<i. \<not> bit (im AND isv) j) \<and>
               handle_interrupts s =
                 Inr (let ram' = (ram s)[slot (sp - 1) := pc s, slot (sp - 2) := fl s,
                                     slot (sp - 3) := reg s ! 0, slot (sp - 4) := reg s ! 1,
                                     slot (sp - 5) := reg s ! 2, slot (sp - 6) := reg s ! 3,
                                     slot (sp - 7) := reg s ! 4, slot (sp - 8) := reg s ! 5,
                                     slot (sp - 9) := PInt (isv AND NOT (2 ^ i))]
                      in s\<lparr>pc := ram' ! (248 + i), ie := 0, ram := ram',
                           reg := (reg s)[6 := PInt (isv AND NOT (2 ^ i)),
                                          7 := PInt (sp - 9)]\<rparr>)"
    using i by (auto simp: bit_and_iff)
qed

theorem interrupt_dispatch_witness:
  "length (ram irq_state) = 256 \<and> length (reg irq_state) = 8 \<and>
   reg irq_state ! 5 = PInt 3 \<and> reg irq_state ! 6 = PInt 6 \<and> reg irq_state ! 7 = PInt 244 \<and>
   ie irq_state \<noteq> 0 \<and> (3::int) AND 6 \<noteq> 0 \<and>
   handle_interrupts irq_state =
     Inr (irq_state\<lparr>pc := PInt 77, ie := 0,
            ram := (ram irq_state)[243 := PInt 0, 242 := PInt 0, 241 := PInt 0, 240 := PInt 0,
                     239 := PInt 0, 238 := PInt 0, 237 := PInt 0, 236 := PInt 3,
                     235 := PInt 4],
            reg := (reg irq_state)[6 := PInt 4, 7 := PInt 235]\<rparr>)"
proof -
  have h: "length (ram irq_state) = 256" "length (reg irq_state) = 8"
    "reg irq_state ! 5 = PInt 3" "reg irq_state ! 6 = PInt 6" "reg irq_state ! 7 = PInt 244"
    "0 \<le> (3::int) AND 6" "(3::int) AND 6 < 256" "- 247 \<le> (244::int)" "(244::int) \<le> 256"
    by (simp_all add: irq_state_def init_def replicate_8)
  have e: "ie irq_state \<noteq> 0" "(3::int) AND 6 \<noteq> 0"
    by (simp_all add: irq_state_def init_def)
  from interrupt_dispatch [OF h] e
  obtain i where i: "i < 8" "bit (3::int) i" "bit (6::int) i"
    and r: "handle_interrupts irq_state =
      Inr (let ram' = (ram irq_state)[slot (244 - 1) := pc irq_state,
                        slot (244 - 2) := fl irq_state,
                        slot (244 - 3) := reg irq_state ! 0, slot (244 - 4) := reg irq_state ! 1,
                        slot (244 - 5) := reg irq_state ! 2, slot (244 - 6) := reg irq_state ! 3,
                        slot (244 - 7) := reg irq_state ! 4, slot (244 - 8) := reg irq_state ! 5,
                        slot (244 - 9) := PInt (6 AND NOT (2 ^ i))]
           in irq_state\<lparr>pc := ram' ! (248 + i), ie := 0, ram := ram',
                reg := (reg irq_state)[6 := PInt (6 AND NOT (2 ^ i)), 7 := PInt (244 - 9)]\<rparr>)"
    by blast
  from i(1) have "i \<in> {0, 1, 2, 3, 4, 5, 6, 7}"
    by auto
  with i(2,3) have "i = 1"
    by (auto simp: bit_iff_odd)
  with r h e show ?thesis
    by (simp add: slot_def irq_state_def init_def replicate_8 Let_def)
qed

subsection \<open>C2: interrupt entry and return\<close>

text \<open>
  Claim C2, as stated, fails for register 6: the dispatch clears the serviced bit of IS
  before it saves the registers, so IRET brings back the cleared value. With IM = 3 and
  IS = 6, line 1 is serviced and IS is 4 after the return, not 6.
\<close>

theorem interrupt_return_changes_IS:
  "handle_interrupts irq_state = Inr irq_entered \<and>
   op_iret (PInt 0) (PInt 0) irq_entered = Inr irq_returned \<and>
   reg irq_state ! 6 = PInt 6 \<and> reg irq_returned ! 6 = PInt 4"
  by (simp add: handle_interrupts_irq_state op_iret_irq_entered)
    (simp add: irq_state_def irq_returned_def init_def replicate_8)

text \<open>
  Claim C2, amended. When an interrupt on line \<open>i\<close> has been dispatched from state \<open>s\<close>,
  and IRET runs in a state whose stack pointer and nine saved cells are those the
  dispatch left, then IRET succeeds and restores PC, FL, registers 0 to 5 and SP to
  their values in \<open>s\<close>, register 6 (IS) to its value in \<open>s\<close> with bit \<open>i\<close> cleared, and
  sets IE to 1.
\<close>

theorem interrupt_return_restores:
  assumes "length (ram s) = 256" and "length (reg s) = 8"
    and "reg s ! 5 = PInt im" and "reg s ! 6 = PInt isv" and "reg s ! 7 = PInt sp"
    and "- 247 \<le> sp" and "sp \<le> 256"
    and "ie s \<noteq> 0" and "i < 8" and "bit (im AND isv) i" and "\<forall>j<i. \<not> bit (im AND isv) j"
    and "handle_interrupts s = Inr s1"
    and "length (ram s2) = 256" and "length (reg s2) = 8" and "reg s2 ! 7 = reg s1 ! 7"
    and "\<forall>k\<in>{1..9}. ram s2 ! slot (sp - k) = ram s1 ! slot (sp - k)"
  shows "\<exists>s3. op_iret a b s2 = Inr s3 \<and> pc s3 = pc s \<and> fl s3 = fl s \<and>
           (\<forall>r<6. reg s3 ! r = reg s ! r) \<and> reg s3 ! 6 = PInt (isv AND NOT (2 ^ i)) \<and>
           reg s3 ! 7 = reg s ! 7 \<and> ie s3 = 1"
proof -
  from handle_interrupts_line [OF assms(2,3,4,8,9,10,11)] assms(12)
  have "service i s = Inr s1"
    by simp
  note saved = service_saved [OF assms(1,2,4,5,6,7,9) this]
  from saved assms(15) have sp2: "reg s2 ! 7 = PInt (sp - 9)"
    by simp
  have same: "ram s2 ! slot (sp - k) = ram s1 ! slot (sp - k)" if "k \<in> {1..9}" for k
    using assms(16) that by blast
  from assms(6,7) have bounds: "- 256 \<le> sp - 9" "sp - 9 \<le> 247"
    by simp_all
  have "\<forall>r<6. [x0, x1, x2, x3, x4, x5, x6, x7] ! r = ys ! r"
    if "x0 = ys ! 0" "x1 = ys ! 1" "x2 = ys ! 2" "x3 = ys ! 3" "x4 = ys ! 4" "x5 = ys ! 5"
    for x0 x1 x2 x3 x4 x5 x6 x7 :: pyval and ys
    using that by (auto simp: less_Suc_eq eval_nat_numeral)
  then show ?thesis
    using saved assms(5)
    by (simp add: op_iret_exec [OF assms(13,14) sp2 bounds]
        same [of 1, simplified] same [of 2, simplified] same [of 3, simplified]
        same [of 4, simplified] same [of 5, simplified] same [of 6, simplified]
        same [of 7, simplified] same [of 8, simplified] same [of 9, simplified])
qed

theorem interrupt_return_restores_witness:
  "handle_interrupts irq_state = Inr irq_entered \<and> ie irq_state \<noteq> 0 \<and>
   op_iret (PInt 0) (PInt 0) irq_entered = Inr irq_returned \<and>
   pc irq_returned = pc irq_state \<and> fl irq_returned = fl irq_state \<and>
   reg irq_returned ! 0 = reg irq_state ! 0 \<and> reg irq_returned ! 5 = reg irq_state ! 5 \<and>
   reg irq_returned ! 6 = PInt (6 AND NOT (2 ^ 1)) \<and>
   reg irq_returned ! 7 = reg irq_state ! 7 \<and> ie irq_returned = 1"
proof -
  have h: "length (ram irq_state) = 256" "length (reg irq_state) = 8"
    "reg irq_state ! 5 = PInt 3" "reg irq_state ! 6 = PInt 6" "reg irq_state ! 7 = PInt 244"
    "- 247 \<le> (244::int)" "(244::int) \<le> 256" "ie irq_state \<noteq> 0" "(1::nat) < 8"
    "bit ((3::int) AND 6) 1" "\<forall>j<1. \<not> bit ((3::int) AND 6) j"
    by (simp_all add: irq_state_def init_def replicate_8 bit_iff_odd)
  have g: "length (ram irq_entered) = 256" "length (reg irq_entered) = 8"
    "reg irq_entered ! 7 = reg irq_entered ! 7"
    "\<forall>k\<in>{1..9}. ram irq_entered ! slot (244 - k) = ram irq_entered ! slot (244 - k)"
    by (simp_all add: irq_entered_def irq_state_def init_def)
  from interrupt_return_restores [OF h handle_interrupts_irq_state g, of "PInt 0" "PInt 0"]
  obtain s3 where r: "op_iret (PInt 0) (PInt 0) irq_entered = Inr s3"
    and s3: "pc s3 = pc irq_state" "fl s3 = fl irq_state" "\<forall>r<6. reg s3 ! r = reg irq_state ! r"
      "reg s3 ! 6 = PInt (6 AND NOT (2 ^ 1))" "reg s3 ! 7 = reg irq_state ! 7" "ie s3 = 1"
    by blast
  from r have eq: "s3 = irq_returned"
    by (simp add: op_iret_irq_entered)
  from s3(3) have "reg s3 ! 0 = reg irq_state ! 0" "reg s3 ! 5 = reg irq_state ! 5"
    by simp_all
  with s3 r h(8) show ?thesis
    unfolding eq using handle_interrupts_irq_state by blast
qed

subsection \<open>C3: how a cycle moves PC\<close>

text \<open>
  Claim C3. Take a cycle that executes a valid opcode \<open>ir\<close> fetched at PC \<open>p\<close> and
  completes. If bit 4 of \<open>ir\<close> is clear, or \<open>ir\<close> is JEQ, JNE, JLT or JLE and its condition
  on FL is false, PC afterwards is \<open>p + ((ir >> 6) & 3) + 1\<close>. Otherwise (bit 4 set, jump
  not declined) the resulting state is exactly the one the handler returned: PC is what
  the handler set and nothing is added.
\<close>

theorem pc_advance:
  assumes "execute s = Inr s'" and "fetch s = Inr (PInt ir, a, b)"
    and "pc s = PInt p" and "fl s = PInt f"
  shows "(\<not> bit ir 4 \<or> declines ir f \<longrightarrow>
            pc s' = PInt (p + ((drop_bit 6 ir AND 3) + 1))) \<and>
         (bit ir 4 \<and> \<not> declines ir f \<longrightarrow>
            (\<exists>h. branch_table ir = Some h \<and> h a b (s\<lparr>inst_set_pc := True\<rparr>) = Inr s'))"
proof -
  let ?s1 = "s\<lparr>inst_set_pc := bit ir 4\<rparr>"
  let ?n = "(drop_bit 6 ir AND 3) + 1"
  from execute_InrD [OF assms(1,2)] obtain h s2 where h: "branch_table ir = Some h"
    and run: "h a b ?s1 = Inr s2" and adv: "advance ?n s2 = Inr s'"
    by blast
  from assms(4) have "fl ?s1 = PInt f"
    by simp
  from handler_pc_cases [OF h run this]
  consider (plain) "\<not> bit ir 4" "\<not> declines ir f" "pc s2 = pc ?s1" "inst_set_pc s2 = inst_set_pc ?s1"
    | (declined) "bit ir 4" "declines ir f" "s2 = ?s1\<lparr>inst_set_pc := False\<rparr>"
    | (taken) "bit ir 4" "\<not> declines ir f" "inst_set_pc s2 = inst_set_pc ?s1"
    by blast
  then show ?thesis
  proof cases
    case plain
    with assms(3) have "\<not> inst_set_pc s2" "pc s2 = PInt p"
      by simp_all
    from advance_plain [OF adv this] plain(1) show ?thesis
      by simp
  next
    case declined
    with assms(3) have "\<not> inst_set_pc s2" "pc s2 = PInt p"
      by simp_all
    from advance_plain [OF adv this] declined(1,2) show ?thesis
      by simp
  next
    case taken
    then have "inst_set_pc s2"
      by simp
    from advance_set [OF adv this] run h taken(1,2) show ?thesis
      by auto
  qed
qed

theorem pc_advance_witness:
  "execute jeq_state = Inr (jeq_state\<lparr>pc := PInt 2, inst_set_pc := False\<rparr>) \<and>
   fetch jeq_state = Inr (PInt JEQ, PInt 2, PInt JMP) \<and>
   pc jeq_state = PInt 0 \<and> fl jeq_state = PInt 0 \<and> declines JEQ 0 \<and>
   pc (jeq_state\<lparr>pc := PInt 2, inst_set_pc := False\<rparr>) = PInt (0 + ((drop_bit 6 JEQ AND 3) + 1)) \<and>
   execute (jeq_state\<lparr>pc := PInt 2\<rparr>) = Inr (jeq_state\<lparr>pc := PInt 100, inst_set_pc := True\<rparr>) \<and>
   bit JMP 4 \<and> \<not> declines JMP 0 \<and>
   op_jmp (PInt 2) (PInt 0) (jeq_state\<lparr>pc := PInt 2, inst_set_pc := True\<rparr>) =
     Inr (jeq_state\<lparr>pc := PInt 100, inst_set_pc := True\<rparr>)"
proof -
  have f: "fetch jeq_state = Inr (PInt JEQ, PInt 2, PInt JMP)"
    "pc jeq_state = PInt 0" "fl jeq_state = PInt 0"
    by (simp_all add: jeq_state_def init_def fetch_def ram_read_def)
  have d: "declines JEQ 0"
    by (simp add: declines_def)
  from pc_advance [OF execute_jeq_state f] d
  have 1: "pc (jeq_state\<lparr>pc := PInt 2, inst_set_pc := False\<rparr>) =
      PInt (0 + ((drop_bit 6 JEQ AND 3) + 1))"
    by blast
  have g: "fetch (jeq_state\<lparr>pc := PInt 2\<rparr>) = Inr (PInt JMP, PInt 2, PInt 0)"
    "pc (jeq_state\<lparr>pc := PInt 2\<rparr>) = PInt 2" "fl (jeq_state\<lparr>pc := PInt 2\<rparr>) = PInt 0"
    by (simp_all add: jeq_state_def init_def fetch_def ram_read_def)
  have e: "bit JMP 4" "\<not> declines JMP 0"
    by (simp_all add: declines_def opcode_defs bit_iff_odd)
  have b: "branch_table JMP = Some op_jmp"
    by (simp add: branch_table_def opcode_defs)
  from pc_advance [OF execute_jmp_state g] e
  obtain h where "branch_table JMP = Some h"
    and "h (PInt 2) (PInt 0) (jeq_state\<lparr>pc := PInt 2, inst_set_pc := True\<rparr>) =
           Inr (jeq_state\<lparr>pc := PInt 100, inst_set_pc := True\<rparr>)"
    by auto
  with b have 2: "op_jmp (PInt 2) (PInt 0) (jeq_state\<lparr>pc := PInt 2, inst_set_pc := True\<rparr>) =
      Inr (jeq_state\<lparr>pc := PInt 100, inst_set_pc := True\<rparr>)"
    by simp
  from execute_jeq_state execute_jmp_state f d 1 e 2 show ?thesis
    by blast
qed

subsection \<open>C4: the stack\<close>

text \<open>
  Claim C4. On a machine with 256 cells and 8 registers whose stack pointer is an integer
  \<open>sp \<le> 256\<close>: \<open>push_value\<close> decrements SP and then writes at the new SP, \<open>pop_value\<close>
  reads at SP and then increments SP (as long as the address indexes memory). Pushing a
  list of \<open>n\<close> values that fits (\<open>n \<le> 256\<close>, \<open>sp - n \<ge> -256\<close>) and popping \<open>n\<close> times
  returns the values in reverse order and leaves SP as it was. PUSH of a register followed
  by POP into a register other than register 7 leaves the pushed value in that register
  and SP unchanged.
\<close>

theorem stack_round_trip:
  assumes "length (ram s) = 256" and "length (reg s) = 8"
    and "reg s ! 7 = PInt sp" and "sp \<le> 256"
  shows "(- 255 \<le> sp \<longrightarrow>
            push_value v s = Inr (s\<lparr>ram := (ram s)[slot (sp - 1) := v],
                                      reg := (reg s)[7 := PInt (sp - 1)]\<rparr>)) \<and>
         (- 256 \<le> sp \<and> sp < 256 \<longrightarrow>
            pop_value s = Inr (ram s ! slot sp, s\<lparr>reg := (reg s)[7 := PInt (sp + 1)]\<rparr>)) \<and>
         (- 256 \<le> sp - int (length vs) \<and> length vs \<le> 256 \<longrightarrow>
            (\<exists>s1 s2. push_values vs s = Inr s1 \<and>
               pop_values (length vs) s1 = Inr (rev vs, s2) \<and> reg s2 ! 7 = reg s ! 7)) \<and>
         (- 255 \<le> sp \<and> py_index 8 a = Inr k \<and> py_index 8 b = Inr l \<and> l \<noteq> 7 \<longrightarrow>
            (\<exists>s1 s2. op_push a c s = Inr s1 \<and> op_pop b c' s1 = Inr s2 \<and>
               reg s2 ! l = reg s ! k \<and> reg s2 ! 7 = reg s ! 7))"
proof (intro conjI impI)
  assume "- 255 \<le> sp"
  with assms show "push_value v s =
      Inr (s\<lparr>ram := (ram s)[slot (sp - 1) := v], reg := (reg s)[7 := PInt (sp - 1)]\<rparr>)"
    by (intro push_value_exec)
next
  assume "- 256 \<le> sp \<and> sp < 256"
  with assms show "pop_value s = Inr (ram s ! slot sp, s\<lparr>reg := (reg s)[7 := PInt (sp + 1)]\<rparr>)"
    by (intro pop_value_exec) simp_all
next
  assume "- 256 \<le> sp - int (length vs) \<and> length vs \<le> 256"
  then have "- 256 \<le> sp - int (length vs)" "length vs \<le> 256"
    by simp_all
  from push_pop_values [OF assms this]
  show "\<exists>s1 s2. push_values vs s = Inr s1 \<and>
           pop_values (length vs) s1 = Inr (rev vs, s2) \<and> reg s2 ! 7 = reg s ! 7"
    by auto
next
  assume "- 255 \<le> sp \<and> py_index 8 a = Inr k \<and> py_index 8 b = Inr l \<and> l \<noteq> 7"
  then have "- 255 \<le> sp" "py_index 8 a = Inr k" "py_index 8 b = Inr l" "l \<noteq> 7"
    by simp_all
  from push_then_pop [OF assms(1-3) this(1) assms(4) this(2-4)]
  show "\<exists>s1 s2. op_push a c s = Inr s1 \<and> op_pop b c' s1 = Inr s2 \<and>
           reg s2 ! l = reg s ! k \<and> reg s2 ! 7 = reg s ! 7" .
qed

theorem stack_round_trip_witness:
  "reg stack_state ! 0 = PInt 42 \<and> reg stack_state ! 7 = PInt 244 \<and>
   (\<exists>s1 s2. push_values [PInt 1, PInt 2, PInt 3] stack_state = Inr s1 \<and>
      pop_values (length [PInt 1, PInt 2, PInt 3]) s1 = Inr (rev [PInt 1, PInt 2, PInt 3], s2) \<and>
      reg s2 ! 7 = reg stack_state ! 7) \<and>
   (\<exists>s1 s2. op_push (PInt 0) (PInt 0) stack_state = Inr s1 \<and>
      op_pop (PInt 1) (PInt 0) s1 = Inr s2 \<and>
      reg s2 ! 1 = reg stack_state ! 0 \<and> reg s2 ! 7 = reg stack_state ! 7)"
proof -
  have h: "length (ram stack_state) = 256" "length (reg stack_state) = 8"
    "reg stack_state ! 7 = PInt 244" "(244::int) \<le> 256"
    by (simp_all add: stack_state_def init_def replicate_8)
  have r: "reg stack_state ! 0 = PInt 42"
    by (simp add: stack_state_def init_def replicate_8)
  have a: "- 256 \<le> 244 - int (length [PInt 1, PInt 2, PInt 3]) \<and>
           length [PInt 1, PInt 2, PInt 3] \<le> 256"
    by simp
  have b: "- 255 \<le> (244::int) \<and> py_index 8 (PInt 0) = Inr 0 \<and>
           py_index 8 (PInt 1) = Inr 1 \<and> (1::nat) \<noteq> 7"
    by simp
  from stack_round_trip [OF h, of "PInt 0" "[PInt 1, PInt 2, PInt 3]" "PInt 0" 0 "PInt 1" 1
      "PInt 0" "PInt 0"] a b r h(3)
  show ?thesis
    by blast
qed

subsection \<open>C5: what CMP leaves in FL\<close>

text \<open>
  Claim C5. For every pair of integer register values \<open>x\<close>, \<open>y\<close> and every previous
  content \<open>f\<close> of FL, CMP succeeds, changes only FL, and leaves exactly one of the three
  bits LT (4), GT (2), EQ (1) set: the low three bits of the new FL are LT if \<open>x < y\<close>,
  GT if \<open>x > y\<close> and EQ otherwise, whatever \<open>f\<close> was.
\<close>

theorem cmp_sets_exactly_one_flag:
  assumes "reg_get s a = Inr (PInt x)" and "reg_get s b = Inr (PInt y)" and "fl s = PInt f"
  shows "\<exists>f'. op_cmp a b s = Inr (s\<lparr>fl := PInt f'\<rparr>) \<and>
           f' AND 7 = (if x < y then FL_LT else if x > y then FL_GT else FL_EQ)"
  using assms
  by (auto simp: op_cmp_def alu_def alu_cmp_def const_defs or_flag_low)

theorem cmp_sets_exactly_one_flag_witness:
  "reg_get (init\<lparr>fl := PInt 7, reg := (reg init)[1 := PInt 255]\<rparr>) (PInt 0) = Inr (PInt 0) \<and>
   reg_get (init\<lparr>fl := PInt 7, reg := (reg init)[1 := PInt 255]\<rparr>) (PInt 1) = Inr (PInt 255) \<and>
   fl (init\<lparr>fl := PInt 7, reg := (reg init)[1 := PInt 255]\<rparr>) = PInt 7 \<and>
   (\<exists>f'. op_cmp (PInt 0) (PInt 1) (init\<lparr>fl := PInt 7, reg := (reg init)[1 := PInt 255]\<rparr>) =
           Inr (init\<lparr>fl := PInt 7, reg := (reg init)[1 := PInt 255], fl := PInt f'\<rparr>) \<and>
         f' AND 7 = FL_LT)"
proof -
  let ?s = "init\<lparr>fl := PInt 7, reg := (reg init)[1 := PInt 255]\<rparr>"
  have a: "reg_get ?s (PInt 0) = Inr (PInt 0)" and b: "reg_get ?s (PInt 1) = Inr (PInt 255)"
    and f: "fl ?s = PInt 7"
    by (simp_all add: reg_get_def init_def replicate_8)
  from cmp_sets_exactly_one_flag [OF a b f] a b f show ?thesis
    by simp
qed

subsection \<open>C6: the width of ALU results\<close>

text \<open>
  Claim C6, as stated, fails: nothing in \<open>alu\<close> reduces a result modulo 256. ADD on
  255 and 1 stores 256, not 0, and DEC on the 0 of register 2 stores -1.
\<close>

theorem alu_results_exceed_a_byte:
  "op_add (PInt 0) (PInt 1) wide_state = Inr (wide_state\<lparr>reg := (reg wide_state)[0 := PInt 256]\<rparr>) \<and>
   (255 + 1) mod 256 \<noteq> (256::int) \<and> \<not> (256::int) \<le> 255 \<and>
   op_dec (PInt 2) (PInt 0) wide_state = Inr (wide_state\<lparr>reg := (reg wide_state)[2 := PInt (- 1)]\<rparr>) \<and>
   \<not> (0::int) \<le> - 1"
  by (simp add: op_add_def op_dec_def alu_def alu_assign_def alu_assign1_def reg_get_def
      reg_set_def wide_state_def init_def replicate_8)

text \<open>
  Claim C6, amended. For integer register operands \<open>x = reg[a]\<close> and \<open>y = reg[b]\<close>, ADD, SUB,
  MUL, INC and DEC store the exact integer result in \<open>reg[a]\<close>, and SHL with a count
  \<open>y \<ge> 0\<close> stores \<open>x * 2 ^ y\<close>; no result is reduced to a byte.
\<close>

theorem alu_results_are_exact:
  assumes "py_index (length (reg s)) a = Inr k" and "reg s ! k = PInt x"
    and "py_index (length (reg s)) b = Inr l" and "reg s ! l = PInt y"
  shows "op_add a b s = Inr (s\<lparr>reg := (reg s)[k := PInt (x + y)]\<rparr>) \<and>
         op_sub a b s = Inr (s\<lparr>reg := (reg s)[k := PInt (x - y)]\<rparr>) \<and>
         op_mul a b s = Inr (s\<lparr>reg := (reg s)[k := PInt (x * y)]\<rparr>) \<and>
         op_inc a b s = Inr (s\<lparr>reg := (reg s)[k := PInt (x + 1)]\<rparr>) \<and>
         op_dec a b s = Inr (s\<lparr>reg := (reg s)[k := PInt (x - 1)]\<rparr>) \<and>
         (0 \<le> y \<longrightarrow> op_shl a b s = Inr (s\<lparr>reg := (reg s)[k := PInt (x * 2 ^ nat y)]\<rparr>))"
  using assms
  by (simp add: op_add_def op_sub_def op_mul_def op_inc_def op_dec_def op_shl_def alu_def
      alu_assign_def alu_assign1_def as_val_def reg_get_def reg_set_def push_bit_eq_mult)

theorem alu_results_are_exact_witness:
  "py_index (length (reg wide_state)) (PInt 0) = Inr 0 \<and> reg wide_state ! 0 = PInt 255 \<and>
   py_index (length (reg wide_state)) (PInt 1) = Inr 1 \<and> reg wide_state ! 1 = PInt 1 \<and>
   (0::int) \<le> 1 \<and>
   op_mul (PInt 0) (PInt 1) wide_state = Inr (wide_state\<lparr>reg := (reg wide_state)[0 := PInt (255 * 1)]\<rparr>) \<and>
   op_shl (PInt 0) (PInt 1) wide_state =
     Inr (wide_state\<lparr>reg := (reg wide_state)[0 := PInt (255 * 2 ^ nat 1)]\<rparr>)"
proof -
  have h: "py_index (length (reg wide_state)) (PInt 0) = Inr 0" "reg wide_state ! 0 = PInt 255"
    "py_index (length (reg wide_state)) (PInt 1) = Inr 1" "reg wide_state ! 1 = PInt 1"
    by (simp_all add: wide_state_def init_def replicate_8)
  have y: "(0::int) \<le> 1"
    by simp
  from alu_results_are_exact [OF h] h y show ?thesis
    by blast
qed

subsection \<open>C7: an opcode outside the branch table\<close>

text \<open>
  Claim C7. When a cycle has fetched an integer opcode \<open>ir\<close> at the integer address \<open>p\<close>,
  the values that the trace prints are integers, and \<open>ir\<close> is not a key of the branch
  table, the cycle ends with the error \<open>Invalid_Instruction ir p\<close>, which carries the
  opcode and the address; no state is returned, and \<open>run\<close> ends with that error whatever
  timer observations would follow.
\<close>

theorem unknown_opcode_is_fatal:
  assumes "\<not> halted s" and "check_timer_interrupt fire s = Inr s1"
    and "handle_interrupts s1 = Inr s2"
    and "fetch s2 = Inr (PInt ir, a, b)" and "pc s2 = PInt p"
    and "is_int (fl s2)" and "is_int a" and "is_int b"
    and "length (reg s2) = 8" and "list_all is_int (reg s2)"
    and "branch_table ir = None"
  shows "execute s2 = Inl (Invalid_Instruction ir p) \<and>
         cycle fire s = Inl (Invalid_Instruction ir p) \<and>
         run (fire # rest) s = Some (Inl (Invalid_Instruction ir p))"
proof -
  from assms(11) have "execute s2 = Inl (Invalid_Instruction ir p)"
    by (simp add: execute_dispatch [OF assms(4-10)])
  with assms(1-3) show ?thesis
    by (simp add: cycle_def)
qed

theorem unknown_opcode_is_fatal_witness:
  "\<not> halted bad_state \<and> check_timer_interrupt False bad_state = Inr bad_state \<and>
   handle_interrupts bad_state = Inr bad_state \<and>
   fetch bad_state = Inr (PInt 255, PInt 0, PInt 0) \<and> pc bad_state = PInt 3 \<and>
   branch_table 255 = None \<and>
   run [False, True] bad_state = Some (Inl (Invalid_Instruction 255 3))"
proof -
  have h: "\<not> halted bad_state" "check_timer_interrupt False bad_state = Inr bad_state"
    by (simp_all add: bad_state_def init_def check_timer_interrupt_def)
  have i: "handle_interrupts bad_state = Inr bad_state"
    by (rule handle_interrupts_idle [where im = 0 and isv = 0])
      (simp_all add: bad_state_def init_def replicate_8)
  have f: "fetch bad_state = Inr (PInt 255, PInt 0, PInt 0)" "pc bad_state = PInt 3"
    "is_int (fl bad_state)" "is_int (PInt 0)" "is_int (PInt 0)"
    "length (reg bad_state) = 8" "list_all is_int (reg bad_state)"
    by (simp_all add: bad_state_def init_def fetch_def ram_read_def replicate_8)
  have b: "branch_table 255 = None"
    by (simp add: branch_table_def opcode_defs)
  from unknown_opcode_is_fatal [OF h i f b, of "[True]"] h i f b show ?thesis
    by blast
qed

subsection \<open>C8: who writes FL\<close>

text \<open>
  Claim C8, as stated, fails: the handler of IRET restores FL from the stack. Run on the
  initial machine with FL = 1, it pops a zero into FL.
\<close>

theorem iret_writes_fl:
  "branch_table IRET = Some op_iret \<and> IRET \<noteq> CMP \<and>
   op_iret (PInt 0) (PInt 0) (init\<lparr>fl := PInt 1\<rparr>) = Inr (init\<lparr>reg := (reg init)[7 := PInt 253]\<rparr>) \<and>
   fl (init\<lparr>reg := (reg init)[7 := PInt 253]\<rparr>) \<noteq> fl (init\<lparr>fl := PInt 1\<rparr>)"
proof -
  have "op_iret (PInt 0) (PInt 0) (init\<lparr>fl := PInt 1\<rparr>) =
          Inr (init\<lparr>reg := (reg init)[7 := PInt 253]\<rparr>)"
    by (subst op_iret_exec [where t = 244]) (simp_all add: init_def slot_def replicate_8)
  then show ?thesis
    by (simp add: branch_table_def opcode_defs init_def)
qed

text \<open>
  Claim C8, amended. Every handler of the branch table other than those of CMP and IRET
  leaves FL as it was, whenever it returns.
\<close>

theorem fl_written_only_by_cmp_and_iret:
  assumes "branch_table ir = Some h" and "ir \<noteq> CMP" and "ir \<noteq> IRET"
    and "h a b s = Inr s'"
  shows "fl s' = fl s"
proof -
  from branch_table_cases [OF assms(1)] assms(2,3)
  consider "h \<in> {op_add, op_and, op_sub, op_mul, op_div, op_dec, op_inc, op_or, op_xor, op_shl}"
    | "h \<in> {op_ldi, op_ld, op_st, op_push, op_pop, op_prn, op_pra, op_hlt}"
    | "h \<in> {op_jmp, op_jeq, op_jne, op_jlt, op_jle, op_call, op_ret}"
    by auto
  then show ?thesis
  proof cases
    case 1
    from alu_handlers_frame [OF this assms(4)] show ?thesis by simp
  next
    case 2
    from data_handlers_frame [OF this assms(4)] show ?thesis by simp
  next
    case 3
    from jump_handlers_frame [OF this assms(4)] show ?thesis .
  qed
qed


theorem fl_written_only_by_cmp_and_iret_witness:
  "branch_table ADD = Some op_add \<and> ADD \<noteq> CMP \<and> ADD \<noteq> IRET \<and>
   op_add (PInt 0) (PInt 7) (init\<lparr>fl := PInt 1\<rparr>) =
     Inr (init\<lparr>fl := PInt 1, reg := (reg init)[0 := PInt 244]\<rparr>) \<and>
   fl (init\<lparr>fl := PInt 1, reg := (reg init)[0 := PInt 244]\<rparr>) = fl (init\<lparr>fl := PInt 1\<rparr>)"
proof -
  have bt: "branch_table ADD = Some op_add" and ne: "ADD \<noteq> CMP" "ADD \<noteq> IRET"
    by (simp_all add: branch_table_def opcode_defs)
  have run: "op_add (PInt 0) (PInt 7) (init\<lparr>fl := PInt 1\<rparr>) =
               Inr (init\<lparr>fl := PInt 1, reg := (reg init)[0 := PInt 244]\<rparr>)"
    by (simp add: op_add_def alu_def alu_assign_def reg_get_def reg_set_def init_def replicate_8)
  from fl_written_only_by_cmp_and_iret [OF bt ne run] bt ne run show ?thesis
    by simp
qed

subsection \<open>C9: the three reads of the fetch\<close>

text \<open>
  Claim C9. Every cycle reads memory at PC, PC + 1 and PC + 2 before it decodes or
  dispatches. With 256 cells and \<open>0 \<le> PC \<le> 253\<close> the three reads succeed and return
  the three cells; with \<open>PC \<ge> 254\<close> the fetch, and with it the cycle, fails with
  IndexError whatever the opcode is: the read neither wraps to address 0 nor clamps.
\<close>

theorem fetch_reads_three_bytes:
  assumes "length (ram s) = 256" and "pc s = PInt p"
  shows "(0 \<le> p \<and> p \<le> 253 \<longrightarrow>
            fetch s = Inr (ram s ! nat p, ram s ! nat (p + 1), ram s ! nat (p + 2))) \<and>
         (254 \<le> p \<longrightarrow> fetch s = Inl IndexError \<and> execute s = Inl IndexError)"
  using assms
  by (simp add: fetch_in_range fetch_out_of_range execute_def)

theorem fetch_reads_three_bytes_witness:
  "length (ram top_state) = 256 \<and> pc top_state = PInt 255 \<and> (254::int) \<le> 255 \<and>
   ram top_state ! 255 = PInt HLT \<and> branch_table HLT = Some op_hlt \<and>
   fetch top_state = Inl IndexError \<and> execute top_state = Inl IndexError"
proof -
  have h: "length (ram top_state) = 256" "pc top_state = PInt 255"
    by (simp_all add: top_state_def init_def)
  have p: "(254::int) \<le> 255"
    by simp
  have r: "ram top_state ! 255 = PInt HLT" "branch_table HLT = Some op_hlt"
    by (simp_all add: top_state_def init_def branch_table_def opcode_defs)
  from fetch_reads_three_bytes [OF h] h p r show ?thesis
    by blast
qed

subsection \<open>C10: CALL and RET\<close>

text \<open>
  Claim C10. On a machine with 256 cells and 8 registers, with an integer PC \<open>p\<close>, a stack
  pointer \<open>sp\<close> that leaves room for one push and a valid register operand, CALL succeeds,
  stores \<open>p + 2\<close> in the cell below the old stack top, decrements SP and sets PC to the
  register (read after the push). A RET executed afterwards in any state with that stack
  pointer and that cell untouched sets PC to \<open>p + 2\<close> and SP back to \<open>sp\<close>.
\<close>

theorem call_ret_round_trip:
  assumes "length (ram s) = 256" and "length (reg s) = 8"
    and "pc s = PInt p" and "reg s ! 7 = PInt sp"
    and "- 255 \<le> sp" and "sp \<le> 256" and "py_index 8 a = Inr k"
  shows "\<exists>s1. op_call a b s = Inr s1 \<and>
           reg s1 ! 7 = PInt (sp - 1) \<and> ram s1 ! slot (sp - 1) = PInt (p + 2) \<and>
           pc s1 = reg s1 ! k \<and> (k \<noteq> 7 \<longrightarrow> pc s1 = reg s ! k) \<and>
           (\<forall>s2. length (ram s2) = 256 \<and> length (reg s2) = 8 \<and>
                 reg s2 ! 7 = reg s1 ! 7 \<and> ram s2 ! slot (sp - 1) = ram s1 ! slot (sp - 1) \<longrightarrow>
                 (\<exists>s3. op_ret a' b' s2 = Inr s3 \<and> pc s3 = PInt (p + 2) \<and> reg s3 ! 7 = PInt sp))"
proof -
  from assms(7) have k: "k < 8"
    by (cases a) (auto split: if_splits)
  note call = op_call_exec [OF assms, of b]
  have ret: "\<exists>s3. op_ret a' b' s2 = Inr s3 \<and> pc s3 = PInt (p + 2) \<and> reg s3 ! 7 = PInt sp"
    if "length (ram s2) = 256" "length (reg s2) = 8" "reg s2 ! 7 = PInt (sp - 1)"
      "ram s2 ! slot (sp - 1) = PInt (p + 2)" for s2
    using that assms(5,6) by (simp add: op_ret_exec [where t = "sp - 1"])
  show ?thesis
    unfolding call using assms(1,2,5,6) k ret
    by (simp add: slot_less)
qed

theorem call_ret_round_trip_witness:
  "op_call (PInt 2) (PInt 0) call_state = Inr call_entered \<and>
   pc call_entered = PInt 40 \<and> ram call_entered ! slot (244 - 1) = PInt (10 + 2) \<and>
   op_ret (PInt 0) (PInt 0) call_entered =
     Inr (call_entered\<lparr>pc := PInt (10 + 2), reg := (reg call_entered)[7 := PInt 244]\<rparr>)"
proof -
  have h: "length (ram call_state) = 256" "length (reg call_state) = 8"
    "pc call_state = PInt 10" "reg call_state ! 7 = PInt 244"
    "- 255 \<le> (244::int)" "(244::int) \<le> 256" "py_index 8 (PInt 2) = Inr 2"
    by (simp_all add: call_state_def init_def replicate_8)
  have c: "op_call (PInt 2) (PInt 0) call_state = Inr call_entered"
    by (subst op_call_exec [OF h])
      (simp add: call_state_def call_entered_def init_def replicate_8 slot_def)
  have g: "length (ram call_entered) = 256 \<and> length (reg call_entered) = 8 \<and>
     reg call_entered ! 7 = reg call_entered ! 7 \<and>
     ram call_entered ! slot (244 - 1) = ram call_entered ! slot (244 - 1)"
    by (simp add: call_entered_def call_state_def init_def)
  from call_ret_round_trip [OF h, of "PInt 0" "PInt 0" "PInt 0"] c
  have s1: "pc call_entered = reg call_state ! 2"
    "ram call_entered ! slot (244 - 1) = PInt (10 + 2)"
    and "\<forall>s2. length (ram s2) = 256 \<and> length (reg s2) = 8 \<and>
           reg s2 ! 7 = reg call_entered ! 7 \<and>
           ram s2 ! slot (244 - 1) = ram call_entered ! slot (244 - 1) \<longrightarrow>
           (\<exists>s3. op_ret (PInt 0) (PInt 0) s2 = Inr s3 \<and> pc s3 = PInt (10 + 2) \<and>
                 reg s3 ! 7 = PInt 244)"
    by auto
  with g obtain s3 where r: "op_ret (PInt 0) (PInt 0) call_entered = Inr s3"
    and p: "pc s3 = PInt (10 + 2)" "reg s3 ! 7 = PInt 244"
    by blast
  have "op_ret (PInt 0) (PInt 0) call_entered =
          Inr (call_entered\<lparr>pc := ram call_entered ! slot 243,
                 reg := (reg call_entered)[7 := PInt (243 + 1)]\<rparr>)"
    by (rule op_ret_exec) (simp_all add: call_entered_def call_state_def init_def replicate_8)
  with r p have "op_ret (PInt 0) (PInt 0) call_entered =
     Inr (call_entered\<lparr>pc := PInt (10 + 2), reg := (reg call_entered)[7 := PInt 244]\<rparr>)"
    by auto
  with c s1 show ?thesis
    by (simp add: call_state_def init_def replicate_8)
qed

end
